theory Spec2Isabelle
  imports Main "HOL-Library.Word"
begin

section \<open>Bytes, C strings and host memory\<close>

text \<open>
  A \<open>char\<close> is one byte. A \<open>const char *\<close> argument is modelled by the bytes found at the
  pointer; as in C, the string it denotes ends before the first NUL byte (\<open>strlen\<close>,
  \<open>c_text\<close>). A chunk obtained from the host allocator is a list of cells, each either
  still unwritten (\<open>None\<close>) or holding a value; writing outside the chunk and reading an
  unwritten cell are errors of the model, so that a proof has to show they do not happen.
\<close>

type_synonym byte = "8 word"

type_synonym 'a chunk = "'a option list"

datatype error =
    AllocationError
  | OutOfBounds
  | UninitializedRead
  | ElogError string
  | InputSyntaxError

definition strlen :: "byte list \<Rightarrow> nat" where
  "strlen str = length (takeWhile (\<lambda>b. b \<noteq> 0) str)"

definition c_text :: "byte list \<Rightarrow> byte list" where
  "c_text str = takeWhile (\<lambda>b. b \<noteq> 0) str"

definition store :: "'a chunk \<Rightarrow> nat \<Rightarrow> 'a \<Rightarrow> error + 'a chunk" where
  "store buf k v = (if k < length buf then Inr (buf[k := Some v]) else Inl OutOfBounds)"

definition fetch :: "'a list \<Rightarrow> nat \<Rightarrow> error + 'a" where
  "fetch xs k = (if k < length xs then Inr (xs ! k) else Inl OutOfBounds)"

text \<open>Reading a chunk of bytes as a C string, as \<open>%s\<close> does: up to its NUL terminator.\<close>

fun c_str :: "byte chunk \<Rightarrow> error + byte list" where
  "c_str [] = Inl OutOfBounds"
| "c_str (None # rest) = Inl UninitializedRead"
| "c_str (Some b # rest) =
     (if b = 0 then Inr []
      else (case c_str rest of Inl e \<Rightarrow> Inl e | Inr s \<Rightarrow> Inr (b # s)))"

section \<open>The host and the calls across the library boundary\<close>

text \<open>
  The host (PostgreSQL) and the address library (libpostal) are not part of this
  repository. What the code depends on is modelled as follows. Every host call that
  allocates may raise an error instead of returning (\<open>elog(ERROR)\<close> does not return to the
  caller): \<open>allocs_left\<close> says how many further allocating calls the host will still
  serve, and a \<open>palloc\<close> request above \<open>MaxAllocSize\<close> is refused whatever is left. A host
  call whose request sizes the model does not follow (\<open>host_call\<close>) counts as one such
  call each time, whether or not it has to allocate, so the model has a failing run for
  every place where the host can fail. The calls made to the address library are recorded
  in \<open>events\<close>, oldest first.
\<close>

datatype event =
    Setup | SetupParser | SetupLanguageClassifier
  | Teardown | TeardownParser | TeardownLanguageClassifier
  | ExpandAddress | ExpansionArrayDestroy
  | ParseAddress | ParserResponseDestroy

record host =
  allocs_left :: nat
  events :: "event list"

type_synonym 'a hostM = "host \<Rightarrow> (error + 'a) \<times> host"

definition returnH :: "'a \<Rightarrow> 'a hostM" where
  "returnH a = (\<lambda>h. (Inr a, h))"

definition raiseH :: "error \<Rightarrow> 'a hostM" where
  "raiseH e = (\<lambda>h. (Inl e, h))"

definition bindH :: "'a hostM \<Rightarrow> ('a \<Rightarrow> 'b hostM) \<Rightarrow> 'b hostM" where
  "bindH m f = (\<lambda>h. case m h of (Inl e, h') \<Rightarrow> (Inl e, h') | (Inr a, h') \<Rightarrow> f a h')"

definition liftH :: "error + 'a \<Rightarrow> 'a hostM" where
  "liftH r = (case r of Inl e \<Rightarrow> raiseH e | Inr a \<Rightarrow> returnH a)"

definition record_event :: "event \<Rightarrow> unit hostM" where
  "record_event ev = (\<lambda>h. (Inr (), h\<lparr>events := events h @ [ev]\<rparr>))"

text \<open>The host's limit on the size of one \<open>palloc\<close> request: one byte less than 1 GB.\<close>

definition MaxAllocSize :: nat where
  "MaxAllocSize = 0x3fffffff"

definition alloc_ok :: "nat \<Rightarrow> host \<Rightarrow> bool" where
  "alloc_ok sz h = (sz \<le> MaxAllocSize \<and> 0 < allocs_left h)"

definition charge :: "host \<Rightarrow> host" where
  "charge h = h\<lparr>allocs_left := allocs_left h - 1\<rparr>"

text \<open>A host call that allocates \<open>sz\<close> bytes and gives nothing else back to the model.\<close>

definition host_alloc :: "nat \<Rightarrow> unit hostM" where
  "host_alloc sz = (\<lambda>h. if alloc_ok sz h then (Inr (), charge h) else (Inl AllocationError, h))"

text \<open>
  \<open>palloc(elsize * n)\<close>, the result used as an array of \<open>n\<close> cells of \<open>elsize\<close> bytes each:
  a fresh chunk with unspecified contents, or an error. \<open>palloc\<close> is the case of bytes.
\<close>

definition palloc_cells :: "nat \<Rightarrow> nat \<Rightarrow> ('a chunk) hostM" where
  "palloc_cells elsize n = bindH (host_alloc (elsize * n)) (\<lambda>_. returnH (replicate n None))"

definition palloc :: "nat \<Rightarrow> (byte chunk) hostM" where
  "palloc sz = palloc_cells 1 sz"

text \<open>A host call that may allocate, of a size that the model does not follow.\<close>

definition host_call :: "unit hostM" where
  "host_call = host_alloc 0"

section \<open>escape_json_string\<close>

text \<open>
  The two assignments \<open>pstr[j++] = a; pstr[j++] = b;\<close> of an escaping case, and the single
  one of the default case.
\<close>

definition emit2 :: "byte chunk \<Rightarrow> nat \<Rightarrow> byte \<Rightarrow> byte \<Rightarrow> error + (byte chunk \<times> nat)" where
  "emit2 pstr j a b =
     (case store pstr j a of
        Inl e \<Rightarrow> Inl e
      | Inr p1 \<Rightarrow> (case store p1 (j + 1) b of
                     Inl e \<Rightarrow> Inl e
                   | Inr p2 \<Rightarrow> Inr (p2, j + 2)))"

definition emit1 :: "byte chunk \<Rightarrow> nat \<Rightarrow> byte \<Rightarrow> error + (byte chunk \<times> nat)" where
  "emit1 pstr j a =
     (case store pstr j a of
        Inl e \<Rightarrow> Inl e
      | Inr p1 \<Rightarrow> Inr (p1, j + 1))"

text \<open>
  The \<open>switch (ch)\<close> of the loop body, in the order of its cases:
  backslash, double quote, newline, carriage return, tab, backspace, form feed, default.
\<close>

definition escape_switch :: "byte \<Rightarrow> byte chunk \<Rightarrow> nat \<Rightarrow> error + (byte chunk \<times> nat)" where
  "escape_switch ch pstr j =
     (if ch = 0x5C then emit2 pstr j 0x5C 0x5C
      else if ch = 0x22 then emit2 pstr j 0x5C 0x22
      else if ch = 0x0A then emit2 pstr j 0x5C 0x6E
      else if ch = 0x0D then emit2 pstr j 0x5C 0x72
      else if ch = 0x09 then emit2 pstr j 0x5C 0x74
      else if ch = 0x08 then emit2 pstr j 0x5C 0x62
      else if ch = 0x0C then emit2 pstr j 0x5C 0x66
      else emit1 pstr j ch)"

text \<open>
  The \<open>for\<close> loop, from the state \<open>(pstr, i, j)\<close>. It ends when \<open>i\<close> reaches \<open>str_len\<close> or,
  after a loop body, by \<open>if (j == pstr_len) break\<close> (then \<open>i\<close> is not incremented). The
  result is the state at loop exit, so that the exit taken can be told from \<open>i\<close>.
\<close>

function escape_loop ::
  "byte list \<Rightarrow> nat \<Rightarrow> nat \<Rightarrow> byte chunk \<Rightarrow> nat \<Rightarrow> nat \<Rightarrow> error + (byte chunk \<times> nat \<times> nat)" where
  "escape_loop str str_len pstr_len pstr i j =
     (if i < str_len then
        (case escape_switch (str ! i) pstr j of
           Inl e \<Rightarrow> Inl e
         | Inr (pstr', j') \<Rightarrow>
             if j' = pstr_len then Inr (pstr', i, j')
             else escape_loop str str_len pstr_len pstr' (i + 1) j')
      else Inr (pstr, i, j))"
  by pat_completeness auto
termination
  by (relation "measure (\<lambda>(str, str_len, pstr_len, pstr, i, j). str_len - i)") auto

declare escape_loop.simps [simp del]

text \<open>
  The function: measure the string, allocate \<open>2 * (str_len + 1)\<close> bytes, run the loop,
  write the terminator at \<open>j\<close>, return the chunk. The indices \<open>i\<close> and \<open>j\<close> are C \<open>int\<close>s;
  they are natural numbers here: an allocation that is granted is of at most \<open>MaxAllocSize\<close>
  bytes, and neither index goes beyond the allocated size, so both stay below \<open>2 ^ 31\<close>.
  The sizes \<open>str_len\<close> and \<open>pstr_len\<close> are \<open>size_t\<close>; no string is long enough for
  \<open>2 * (str_len + 1)\<close> to wrap around.
\<close>

definition escape_json_string :: "byte list \<Rightarrow> (byte chunk) hostM" where
  "escape_json_string str =
     (let str_len = strlen str;
          pstr_len = 2 * (str_len + 1)
      in bindH (palloc pstr_len) (\<lambda>pstr.
           liftH (case escape_loop str str_len pstr_len pstr 0 0 of
                    Inl e \<Rightarrow> Inl e
                  | Inr (pstr', i, j) \<Rightarrow> store pstr' j 0)))"

text \<open>
  What the caller finds at the returned pointer when it reads it as a C string (as
  \<open>postal_parse\<close> does through \<open>%s\<close>), or the error raised instead of returning.
\<close>

definition returned_string :: "(error + byte chunk) \<times> host \<Rightarrow> error + byte list" where
  "returned_string r = (case fst r of Inl e \<Rightarrow> Inl e | Inr pstr \<Rightarrow> c_str pstr)"

subsection \<open>The escaping table of the specification\<close>

text \<open>
  The table of the specification, section 4.2, row by row: what each input byte is to be
  replaced by. This definition follows the specification, not the code; the theorems below
  compare the code with it.
\<close>

definition escape_table :: "byte \<Rightarrow> byte list" where
  "escape_table b =
     (if b = 0x5C then [0x5C, 0x5C]
      else if b = 0x22 then [0x5C, 0x22]
      else if b = 0x0A then [0x5C, 0x6E]
      else if b = 0x0D then [0x5C, 0x72]
      else if b = 0x09 then [0x5C, 0x74]
      else if b = 0x08 then [0x5C, 0x62]
      else if b = 0x0C then [0x5C, 0x66]
      else [b])"

definition escaped :: "byte list \<Rightarrow> byte list" where
  "escaped text = concat (map escape_table text)"

definition special :: "byte set" where
  "special = {0x5C, 0x22, 0x0A, 0x0D, 0x09, 0x08, 0x0C}"

text \<open>
  The contents expected of the returned chunk: the escaped text, its terminator, and the
  cells after it that are never written.
\<close>

definition escaped_chunk :: "byte list \<Rightarrow> byte chunk" where
  "escaped_chunk str =
     map Some (escaped (c_text str) @ [0])
       @ replicate (2 * (strlen str + 1) - (length (escaped (c_text str)) + 1)) None"


section \<open>Startup and tear-down\<close>

text \<open>
  The three initialisation functions of the library return a truth value. What each of
  them would return when called is a parameter of the model (\<open>core_ok\<close>, \<open>parser_ok\<close>,
  \<open>classifier_ok\<close>); the call itself is recorded. \<open>PG_init\<close> and \<open>PG_fini\<close> are the code's
  \<open>_PG_init\<close> and \<open>_PG_fini\<close>.
\<close>

definition libpostal_setup :: "bool \<Rightarrow> bool hostM" where
  "libpostal_setup core_ok = bindH (record_event Setup) (\<lambda>_. returnH core_ok)"

definition libpostal_setup_parser :: "bool \<Rightarrow> bool hostM" where
  "libpostal_setup_parser parser_ok = bindH (record_event SetupParser) (\<lambda>_. returnH parser_ok)"

definition libpostal_setup_language_classifier :: "bool \<Rightarrow> bool hostM" where
  "libpostal_setup_language_classifier classifier_ok =
     bindH (record_event SetupLanguageClassifier) (\<lambda>_. returnH classifier_ok)"

text \<open>C's \<open>!e\<close> and the short-circuit \<open>e1 || e2\<close>: \<open>e2\<close> is run only when \<open>e1\<close> is false.\<close>

definition notH :: "bool hostM \<Rightarrow> bool hostM" where
  "notH m = bindH m (\<lambda>b. returnH (\<not> b))"

definition orH :: "bool hostM \<Rightarrow> bool hostM \<Rightarrow> bool hostM" where
  "orH m1 m2 = bindH m1 (\<lambda>b. if b then returnH True else m2)"

definition elog_ERROR :: "string \<Rightarrow> 'a hostM" where
  "elog_ERROR msg = raiseH (ElogError msg)"

definition PG_init :: "bool \<Rightarrow> bool \<Rightarrow> bool \<Rightarrow> unit hostM" where
  "PG_init core_ok parser_ok classifier_ok =
     bindH (orH (orH (notH (libpostal_setup core_ok))
                     (notH (libpostal_setup_parser parser_ok)))
                (notH (libpostal_setup_language_classifier classifier_ok)))
       (\<lambda>failed. if failed then elog_ERROR ''Failed to initialize libpostal.''
                 else returnH ())"

definition PG_fini :: "unit hostM" where
  "PG_fini =
     bindH (record_event Teardown) (\<lambda>_.
     bindH (record_event TeardownParser) (\<lambda>_.
     record_event TeardownLanguageClassifier))"

section \<open>postal_normalize\<close>

text \<open>
  A value of the host's \<open>text\<close> type is its bytes. \<open>text_to_cstring\<close> copies them into a
  fresh NUL-terminated string, \<open>cstring_to_text\<close> copies a C string into a fresh \<open>text\<close>.
  Fetching the argument (\<open>PG_GETARG_TEXT_P\<close>) and reading the library's default options
  come before the first library call and have no part in what follows; the functions
  below start from the argument's value.
\<close>

type_synonym pg_text = "byte list"

text \<open>
  Two sizes of the host: the header of a \<open>text\<close> value, and a \<open>Datum\<close> (on a 64-bit
  build). They only enter the sizes of allocation requests.
\<close>

definition VARHDRSZ :: nat where
  "VARHDRSZ = 4"

definition sizeof_Datum :: nat where
  "sizeof_Datum = 8"

definition text_to_cstring :: "pg_text \<Rightarrow> (byte list) hostM" where
  "text_to_cstring t = bindH (host_alloc (length t + 1)) (\<lambda>_. returnH (t @ [0]))"

definition cstring_to_text :: "byte list \<Rightarrow> pg_text hostM" where
  "cstring_to_text s = bindH (host_alloc (strlen s + VARHDRSZ)) (\<lambda>_. returnH (c_text s))"

text \<open>
  The expansion engine is a parameter: \<open>expand\<close> maps the C string it is given to the array
  of strings it returns and the count it stores through \<open>&arr_nelems\<close>.
\<close>

definition libpostal_expand_address ::
  "(byte list \<Rightarrow> byte list list \<times> nat) \<Rightarrow> byte list \<Rightarrow> (byte list list \<times> nat) hostM" where
  "libpostal_expand_address expand s = bindH (record_event ExpandAddress) (\<lambda>_. returnH (expand s))"

definition libpostal_expansion_array_destroy :: "byte list list \<Rightarrow> nat \<Rightarrow> unit hostM" where
  "libpostal_expansion_array_destroy expansions n = record_event ExpansionArrayDestroy"

definition get_typlenbyvalalign :: "unit hostM" where
  "get_typlenbyvalalign = host_call"

text \<open>
  The loop \<open>for (i = 0; i < arr_nelems; i++) arr_elems[i] = cstring_to_text(expansions[i])\<close>,
  from \<open>i\<close>, with the host state passed along.
\<close>

function normalize_loop ::
  "byte list list \<Rightarrow> nat \<Rightarrow> pg_text chunk \<Rightarrow> nat \<Rightarrow> (pg_text chunk) hostM" where
  "normalize_loop expansions arr_nelems arr_elems i h =
     (if i < arr_nelems then
        (case fetch expansions i of
           Inl e \<Rightarrow> (Inl e, h)
         | Inr s \<Rightarrow>
             (case cstring_to_text s h of
                (Inl e, h1) \<Rightarrow> (Inl e, h1)
              | (Inr t, h1) \<Rightarrow>
                  (case store arr_elems i t of
                     Inl e \<Rightarrow> (Inl e, h1)
                   | Inr arr_elems' \<Rightarrow>
                       normalize_loop expansions arr_nelems arr_elems' (i + 1) h1)))
      else (Inr arr_elems, h))"
  by pat_completeness auto
termination
  by (relation "measure (\<lambda>(expansions, arr_nelems, arr_elems, i, h). arr_nelems - i)") auto

declare normalize_loop.simps [simp del]

text \<open>
  The cells of \<open>arr_elems\<close> after \<open>i\<close> rounds of the loop: the first \<open>i\<close> expansions
  converted, in their order, and the remaining \<open>n - i\<close> cells not yet written.
\<close>

definition filled :: "byte list list \<Rightarrow> nat \<Rightarrow> nat \<Rightarrow> pg_text chunk" where
  "filled expansions n i = map Some (map c_text (take i expansions)) @ replicate (n - i) None"

text \<open>
  \<open>construct_array\<close> reads the first \<open>n\<close> cells and returns a copy of them as an array,
  here the list of its elements; for \<open>n = 0\<close> that is the empty array.
\<close>

fun read_cells :: "'a chunk \<Rightarrow> nat \<Rightarrow> error + 'a list" where
  "read_cells buf 0 = Inr []"
| "read_cells [] (Suc n) = Inl OutOfBounds"
| "read_cells (None # rest) (Suc n) = Inl UninitializedRead"
| "read_cells (Some x # rest) (Suc n) =
     (case read_cells rest n of Inl e \<Rightarrow> Inl e | Inr xs \<Rightarrow> Inr (x # xs))"

definition construct_array :: "pg_text chunk \<Rightarrow> nat \<Rightarrow> (pg_text list) hostM" where
  "construct_array arr_elems n =
     bindH (liftH (read_cells arr_elems n)) (\<lambda>xs.
     bindH host_call (\<lambda>_. returnH xs))"

definition postal_normalize ::
  "(byte list \<Rightarrow> byte list list \<times> nat) \<Rightarrow> pg_text \<Rightarrow> (pg_text list) hostM" where
  "postal_normalize expand address =
     bindH (text_to_cstring address) (\<lambda>cstr.
     bindH (libpostal_expand_address expand cstr) (\<lambda>(expansions, arr_nelems).
     bindH (palloc_cells sizeof_Datum arr_nelems) (\<lambda>arr_elems.
     bindH get_typlenbyvalalign (\<lambda>_.
     bindH (normalize_loop expansions arr_nelems arr_elems 0) (\<lambda>arr_elems'.
     bindH (construct_array arr_elems' arr_nelems) (\<lambda>arr.
     bindH (libpostal_expansion_array_destroy expansions arr_nelems) (\<lambda>_.
     returnH arr)))))))"

section \<open>postal_parse\<close>

text \<open>
  The response of the parsing engine, with the three fields the code reads. The engine is
  a parameter: \<open>parse\<close> maps the C string it is given to the response.
\<close>

record libpostal_address_parser_response =
  num_components :: nat
  components :: "byte list list"
  labels :: "byte list list"

definition libpostal_parse_address ::
  "(byte list \<Rightarrow> libpostal_address_parser_response) \<Rightarrow> byte list
     \<Rightarrow> libpostal_address_parser_response hostM" where
  "libpostal_parse_address parse s = bindH (record_event ParseAddress) (\<lambda>_. returnH (parse s))"

definition libpostal_address_parser_response_destroy ::
  "libpostal_address_parser_response \<Rightarrow> unit hostM" where
  "libpostal_address_parser_response_destroy parsed = record_event ParserResponseDestroy"

text \<open>
  The host's string buffer, by its contents. Each call on it may have to enlarge it, and
  so may fail. \<open>appendStringInfo_label_component\<close> is \<open>appendStringInfo\<close> with the format
  \<^verbatim>\<open>"\"%s\":\"%s\""\<close> of the code: both arguments are read as C strings.
\<close>

definition initStringInfo :: "(byte list) hostM" where
  "initStringInfo = bindH host_call (\<lambda>_. returnH [])"

definition appendStringInfoChar :: "byte list \<Rightarrow> byte \<Rightarrow> (byte list) hostM" where
  "appendStringInfoChar strbuf ch = bindH host_call (\<lambda>_. returnH (strbuf @ [ch]))"

definition appendStringInfo_label_component ::
  "byte list \<Rightarrow> byte list \<Rightarrow> byte chunk \<Rightarrow> (byte list) hostM" where
  "appendStringInfo_label_component strbuf label component =
     bindH (liftH (c_str component)) (\<lambda>ctext.
     bindH host_call (\<lambda>_.
     returnH (strbuf @ [0x22] @ c_text label @ [0x22, 0x3A, 0x22] @ ctext @ [0x22])))"

definition pfree :: "'a chunk \<Rightarrow> unit hostM" where
  "pfree p = returnH ()"

text \<open>The loop over the components, from \<open>i\<close>, with the host state passed along.\<close>

function parse_loop ::
  "libpostal_address_parser_response \<Rightarrow> byte list \<Rightarrow> nat \<Rightarrow> (byte list) hostM" where
  "parse_loop parsed strbuf i h =
     (if i < num_components parsed then
        (case (if 0 < i then appendStringInfoChar strbuf 0x2C h else (Inr strbuf, h)) of
           (Inl e, h1) \<Rightarrow> (Inl e, h1)
         | (Inr strbuf1, h1) \<Rightarrow>
             (case fetch (components parsed) i of
                Inl e \<Rightarrow> (Inl e, h1)
              | Inr s \<Rightarrow>
                  (case escape_json_string s h1 of
                     (Inl e, h2) \<Rightarrow> (Inl e, h2)
                   | (Inr component, h2) \<Rightarrow>
                       (case fetch (labels parsed) i of
                          Inl e \<Rightarrow> (Inl e, h2)
                        | Inr label \<Rightarrow>
                            (case appendStringInfo_label_component strbuf1 label component h2 of
                               (Inl e, h3) \<Rightarrow> (Inl e, h3)
                             | (Inr strbuf2, h3) \<Rightarrow>
                                 (case pfree component h3 of
                                    (Inl e, h4) \<Rightarrow> (Inl e, h4)
                                  | (Inr u, h4) \<Rightarrow> parse_loop parsed strbuf2 (i + 1) h4))))))
      else (Inr strbuf, h))"
  by pat_completeness auto
termination
  by (relation "measure (\<lambda>(parsed, strbuf, i, h). num_components parsed - i)") auto

declare parse_loop.simps [simp del]

text \<open>
  The text the specification, section 4.4, asks for: for each pair, in order,
  \<^verbatim>\<open>"label":"escaped-component"\<close>, joined by commas. \<open>member_text k\<close> is the text of pair
  \<open>k\<close> with the comma before it when it is not the first; \<open>document_members parsed i\<close> is
  the text of the pairs from \<open>i\<close> on. These definitions follow the specification, not the
  code; \<open>parse_loop_returns\<close> below compares the code with them.
\<close>

definition member_text :: "nat \<Rightarrow> byte list \<Rightarrow> byte list \<Rightarrow> byte list" where
  "member_text k label component =
     (if 0 < k then [0x2C] else [])
       @ [0x22] @ c_text label @ [0x22, 0x3A, 0x22] @ escaped (c_text component) @ [0x22]"

definition document_members :: "libpostal_address_parser_response \<Rightarrow> nat \<Rightarrow> byte list" where
  "document_members parsed i =
     concat (map (\<lambda>k. member_text k (labels parsed ! k) (components parsed ! k))
               [i..<num_components parsed])"

text \<open>
  The host's document parser \<open>jsonb_in\<close> is a parameter: it is given the buffer's contents
  as a C string and returns a document or raises an error.
\<close>

definition call_jsonb_in :: "(byte list \<Rightarrow> error + 'doc) \<Rightarrow> byte list \<Rightarrow> 'doc hostM" where
  "call_jsonb_in jsonb_in strbuf = liftH (jsonb_in (c_text (strbuf @ [0])))"

definition postal_parse ::
  "(byte list \<Rightarrow> libpostal_address_parser_response) \<Rightarrow> (byte list \<Rightarrow> error + 'doc)
     \<Rightarrow> pg_text \<Rightarrow> 'doc hostM" where
  "postal_parse parse jsonb_in address =
     bindH (text_to_cstring address) (\<lambda>cstr.
     bindH (libpostal_parse_address parse cstr) (\<lambda>parsed.
     bindH initStringInfo (\<lambda>strbuf0.
     bindH (appendStringInfoChar strbuf0 0x7B) (\<lambda>strbuf1.
     bindH (parse_loop parsed strbuf1 0) (\<lambda>strbuf2.
     bindH (appendStringInfoChar strbuf2 0x7D) (\<lambda>strbuf3.
     bindH (libpostal_address_parser_response_destroy parsed) (\<lambda>_.
     call_jsonb_in jsonb_in strbuf3)))))))"

section \<open>JSON string literals\<close>

text \<open>
  The reading of a string literal by a JSON parser is not code of this repository. The
  definitions of this section are reference definitions, written after RFC 8259,
  section 7: between the quotation marks, a byte below \<open>0x20\<close>, a quotation mark and a
  backslash may not stand for themselves; a backslash starts one of the escapes
  \<^verbatim>\<open>\" \\ \/ \b \f \n \r \t\<close> or \<^verbatim>\<open>\uXXXX\<close>; every other byte, among them the bytes of a multi-byte
  character, stands for itself.

  \<open>json_unescape\<close> decodes the bytes between the quotation marks, \<open>None\<close> when they are not
  the inside of a string literal. \<open>string_end\<close> finds the closing quotation mark the way a
  lexer does, counting from the byte after the opening one.
\<close>

definition hex_digit :: "byte \<Rightarrow> nat option" where
  "hex_digit b =
     (if 0x30 \<le> b \<and> b \<le> 0x39 then Some (unat b - 0x30)
      else if 0x41 \<le> b \<and> b \<le> 0x46 then Some (unat b - 0x41 + 10)
      else if 0x61 \<le> b \<and> b \<le> 0x66 then Some (unat b - 0x61 + 10)
      else None)"

fun hex4 :: "byte list \<Rightarrow> nat option" where
  "hex4 [a, b, c, d] =
     (case (hex_digit a, hex_digit b, hex_digit c, hex_digit d) of
        (Some w, Some x, Some y, Some z) \<Rightarrow> Some (((w * 16 + x) * 16 + y) * 16 + z)
      | _ \<Rightarrow> None)"
| "hex4 _ = None"

definition utf8_encode :: "nat \<Rightarrow> byte list" where
  "utf8_encode cp =
     (if cp < 0x80 then [of_nat cp]
      else if cp < 0x800 then [of_nat (0xC0 + cp div 0x40), of_nat (0x80 + cp mod 0x40)]
      else if cp < 0x10000 then
        [of_nat (0xE0 + cp div 0x1000), of_nat (0x80 + cp div 0x40 mod 0x40),
         of_nat (0x80 + cp mod 0x40)]
      else
        [of_nat (0xF0 + cp div 0x40000), of_nat (0x80 + cp div 0x1000 mod 0x40),
         of_nat (0x80 + cp div 0x40 mod 0x40), of_nat (0x80 + cp mod 0x40)])"

function json_unescape :: "byte list \<Rightarrow> byte list option" where
  "json_unescape [] = Some []"
| "json_unescape (b # rest) =
     (if b = 0x5C then
        (case rest of
           [] \<Rightarrow> None
         | c # rest' \<Rightarrow>
             if c = 0x22 then map_option ((#) 0x22) (json_unescape rest')
             else if c = 0x5C then map_option ((#) 0x5C) (json_unescape rest')
             else if c = 0x2F then map_option ((#) 0x2F) (json_unescape rest')
             else if c = 0x62 then map_option ((#) 0x08) (json_unescape rest')
             else if c = 0x66 then map_option ((#) 0x0C) (json_unescape rest')
             else if c = 0x6E then map_option ((#) 0x0A) (json_unescape rest')
             else if c = 0x72 then map_option ((#) 0x0D) (json_unescape rest')
             else if c = 0x74 then map_option ((#) 0x09) (json_unescape rest')
             else if c = 0x75 then
               (case hex4 (take 4 rest') of
                  None \<Rightarrow> None
                | Some cp \<Rightarrow>
                    if 0xD800 \<le> cp \<and> cp < 0xDC00 then
                      (case drop 4 rest' of
                         x # y # rest'' \<Rightarrow>
                           if x = 0x5C \<and> y = 0x75 then
                             (case hex4 (take 4 rest'') of
                                None \<Rightarrow> None
                              | Some lo \<Rightarrow>
                                  if 0xDC00 \<le> lo \<and> lo < 0xE000 then
                                    map_option
                                      ((@) (utf8_encode
                                              (0x10000 + (cp - 0xD800) * 0x400 + (lo - 0xDC00))))
                                      (json_unescape (drop 4 rest''))
                                  else None)
                           else None
                       | _ \<Rightarrow> None)
                    else if 0xDC00 \<le> cp \<and> cp < 0xE000 then None
                    else map_option ((@) (utf8_encode cp)) (json_unescape (drop 4 rest')))
             else None)
      else if b = 0x22 then None
      else if b < 0x20 then None
      else map_option ((#) b) (json_unescape rest))"
  by pat_completeness auto
termination
proof -
  have shorter: "length ys \<le> length xs" if "drop 4 xs = x # y # ys"
    for x y :: byte and xs ys
  proof -
    have "length (drop 4 xs) = Suc (Suc (length ys))"
      using that by simp
    then show ?thesis by simp
  qed
  show ?thesis
    by (relation "measure length") (auto simp: less_Suc_eq_le dest: shorter)
qed

declare json_unescape.simps [simp del]

fun string_end :: "byte list \<Rightarrow> nat option" where
  "string_end [] = None"
| "string_end (b # rest) =
     (if b = 0x22 then Some 0
      else if b = 0x5C then
        (case rest of [] \<Rightarrow> None | c # rest' \<Rightarrow> map_option (\<lambda>n. n + 2) (string_end rest'))
      else map_option Suc (string_end rest))"

text \<open>
  \<open>well_escaped\<close> reads a byte sequence from the left as a sequence of units: a backslash
  followed by one of the seven escape letters of the code, or a single byte that is neither
  a backslash nor a quotation mark. It holds when the whole sequence is read that way.
\<close>

fun well_escaped :: "byte list \<Rightarrow> bool" where
  "well_escaped [] = True"
| "well_escaped [b] = (b \<noteq> 0x5C \<and> b \<noteq> 0x22)"
| "well_escaped (b # c # rest) =
     (if b = 0x5C then c \<in> {0x5C, 0x22, 0x6E, 0x72, 0x74, 0x62, 0x66} \<and> well_escaped rest
      else b \<noteq> 0x22 \<and> well_escaped (c # rest))"

text \<open>
  The bytes that \<open>escape_json_string\<close> leaves in a form a JSON string literal may hold:
  those from \<open>0x20\<close> up, and the five control bytes it writes as an escape.
\<close>

definition json_escapable :: "byte \<Rightarrow> bool" where
  "json_escapable b = (0x20 \<le> b \<or> b \<in> {0x0A, 0x0D, 0x09, 0x08, 0x0C})"

section \<open>Sample engines and parsers\<close>

text \<open>
  Fixed responses of the two engines and two stand-ins for the host's document parser, for
  the concrete runs below. \<open>sample_expand\<close> returns three expansions of which two are equal;
  \<open>control_byte_parse\<close> returns the label \<open>road\<close> with a component that is the single byte
  \<open>0x01\<close>; \<open>document_text\<close> returns the text it is given, so that the text handed to the
  parser can be seen.
\<close>

definition sample_expand :: "byte list \<Rightarrow> byte list list \<times> nat" where
  "sample_expand s = ([[0x42, 0], [0x41, 0], [0x42, 0]], 3)"

definition no_expansions :: "byte list \<Rightarrow> byte list list \<times> nat" where
  "no_expansions s = ([], 0)"

definition no_components :: "byte list \<Rightarrow> libpostal_address_parser_response" where
  "no_components s = \<lparr>num_components = 0, components = [], labels = []\<rparr>"

definition sample_parse :: "byte list \<Rightarrow> libpostal_address_parser_response" where
  "sample_parse s =
     \<lparr>num_components = 2,
      components = [[0x35, 0], [0x41, 0x22, 0x42, 0]],
      labels = [[0x6E, 0x6F, 0], [0x72, 0x6F, 0x61, 0x64, 0]]\<rparr>"

definition control_byte_parse :: "byte list \<Rightarrow> libpostal_address_parser_response" where
  "control_byte_parse s =
     \<lparr>num_components = 1,
      components = [[0x01, 0]],
      labels = [[0x72, 0x6F, 0x61, 0x64, 0]]\<rparr>"

definition accept_empty_object :: "byte list \<Rightarrow> error + (byte list \<times> byte list) list" where
  "accept_empty_object d = (if d = [0x7B, 0x7D] then Inr [] else Inl InputSyntaxError)"

definition document_text :: "byte list \<Rightarrow> error + byte list" where
  "document_text d = Inr d"

section \<open>The escaper runs as the table says\<close>

subsection \<open>Writing into a fresh chunk\<close>

lemma store_fresh:
  "store (map Some xs @ replicate (Suc r) None) (length xs) v
     = Inr (map Some (xs @ [v]) @ replicate r None)"
  by (simp add: store_def list_update_append)

lemma length_escape_table: "length (escape_table b) = 1 \<or> length (escape_table b) = 2"
  by (simp add: escape_table_def)

lemma emit1_fresh:
  "0 < r \<Longrightarrow> emit1 (map Some xs @ replicate r None) (length xs) a
     = Inr (map Some (xs @ [a]) @ replicate (r - 1) None, length xs + 1)"
  using store_fresh [of xs "r - 1" a] by (simp add: emit1_def)

lemma emit2_fresh:
  assumes "2 \<le> r"
  shows "emit2 (map Some xs @ replicate r None) (length xs) a b
     = Inr (map Some (xs @ [a, b]) @ replicate (r - 2) None, length xs + 2)"
proof -
  obtain r' where r: "r = Suc (Suc r')"
    using assms by (metis add_2_eq_Suc le_Suc_ex)
  have 1: "store (map Some xs @ replicate r None) (length xs) a
             = Inr (map Some (xs @ [a]) @ replicate (Suc r') None)"
    unfolding r by (rule store_fresh)
  have 2: "store (map Some (xs @ [a]) @ replicate (Suc r') None) (length xs + 1) b
             = Inr (map Some ((xs @ [a]) @ [b]) @ replicate r' None)"
    using store_fresh [of "xs @ [a]" r' b] by simp
  show ?thesis
    unfolding emit2_def 1 using 2 by (simp add: r)
qed

lemma escape_switch_fresh:
  assumes "2 \<le> r"
  shows "escape_switch ch (map Some xs @ replicate r None) (length xs)
     = Inr (map Some (xs @ escape_table ch) @ replicate (r - length (escape_table ch)) None,
            length xs + length (escape_table ch))"
  using assms
  by (simp add: escape_switch_def escape_table_def emit2_fresh emit1_fresh numeral_2_eq_2)

lemma escaped_take_Suc:
  "i < length str \<Longrightarrow> escaped (take (Suc i) str) = escaped (take i str) @ escape_table (str ! i)"
  by (simp add: escaped_def take_Suc_conv_app_nth)

lemma length_escaped_le: "length (escaped xs) \<le> 2 * length xs"
proof (induction xs)
  case Nil
  then show ?case by (simp add: escaped_def)
next
  case (Cons x xs)
  have "length (escape_table x) \<le> 2"
    using length_escape_table [of x] by auto
  with Cons show ?case by (simp add: escaped_def)
qed

lemma escape_loop_run:
  assumes "i \<le> n" and "n \<le> length str" and L: "L = 2 * (n + 1)"
  shows "escape_loop str n L
           (map Some (escaped (take i str)) @ replicate (L - length (escaped (take i str))) None)
           i (length (escaped (take i str)))
         = Inr (map Some (escaped (take n str))
                  @ replicate (L - length (escaped (take n str))) None,
                n, length (escaped (take n str)))"
  using assms(1,2)
proof (induction "n - i" arbitrary: i)
  case 0
  then have "i = n" by simp
  then show ?case by (simp add: escape_loop.simps)
next
  case (Suc d)
  then have lt: "i < n" and ilen: "i < length str" by simp_all
  let ?out = "escaped (take i str)"
  let ?out' = "escaped (take (Suc i) str)"
  have out': "?out' = ?out @ escape_table (str ! i)"
    using ilen by (rule escaped_take_Suc)
  have bound: "length ?out \<le> 2 * i"
    using length_escaped_le [of "take i str"] ilen by simp
  have bound': "length ?out' \<le> 2 * (i + 1)"
    using length_escaped_le [of "take (Suc i) str"] ilen by simp
  have room: "2 \<le> L - length ?out"
    using bound lt L by simp
  have sw: "escape_switch (str ! i)
              (map Some ?out @ replicate (L - length ?out) None) (length ?out)
            = Inr (map Some ?out' @ replicate (L - length ?out') None, length ?out')"
    using escape_switch_fresh [OF room, of "str ! i" ?out] by (simp add: out')
  have noguard: "length ?out' \<noteq> L"
    using bound' lt L by simp
  have IH: "escape_loop str n L
              (map Some ?out' @ replicate (L - length ?out') None)
              (Suc i) (length ?out')
            = Inr (map Some (escaped (take n str))
                     @ replicate (L - length (escaped (take n str))) None,
                   n, length (escaped (take n str)))"
    using Suc.hyps(1) [of "Suc i"] Suc.hyps(2) lt Suc.prems(2) by simp
  show ?case
    by (subst escape_loop.simps)
       (simp only: lt if_True sw sum.case prod.case noguard if_False IH Suc_eq_plus1 [symmetric])
qed


lemma bindH_Inr: "m h = (Inr a, h') \<Longrightarrow> bindH m f h = f a h'"
  by (simp add: bindH_def)

lemma bindH_Inl: "m h = (Inl e, h') \<Longrightarrow> bindH m f h = (Inl e, h')"
  by (simp add: bindH_def)

lemma host_alloc_granted: "alloc_ok sz h \<Longrightarrow> host_alloc sz h = (Inr (), charge h)"
  by (simp add: host_alloc_def)

lemma host_alloc_refused: "\<not> alloc_ok sz h \<Longrightarrow> host_alloc sz h = (Inl AllocationError, h)"
  by (simp add: host_alloc_def)

lemma palloc_granted: "alloc_ok sz h \<Longrightarrow> palloc sz h = (Inr (replicate sz None), charge h)"
  by (simp add: palloc_def palloc_cells_def bindH_def returnH_def host_alloc_granted)

lemma palloc_refused: "\<not> alloc_ok sz h \<Longrightarrow> palloc sz h = (Inl AllocationError, h)"
  by (simp add: palloc_def palloc_cells_def bindH_def host_alloc_refused)

lemma take_strlen: "take (strlen str) str = c_text str"
  by (simp add: strlen_def c_text_def takeWhile_eq_take [symmetric])

lemma strlen_le: "strlen str \<le> length str"
  by (simp add: strlen_def length_takeWhile_le)

lemma length_c_text: "length (c_text str) = strlen str"
  by (simp add: strlen_def c_text_def)

lemma escape_table_nonzero: "b \<noteq> 0 \<Longrightarrow> 0 \<notin> set (escape_table b)"
  by (simp add: escape_table_def)

lemma c_text_nonzero: "0 \<notin> set (c_text str)"
  by (auto simp: c_text_def dest: set_takeWhileD)

lemma escaped_nonzero: "0 \<notin> set t \<Longrightarrow> 0 \<notin> set (escaped t)"
  by (induction t) (auto simp: escaped_def dest: escape_table_nonzero)

lemma c_str_terminated: "0 \<notin> set xs \<Longrightarrow> c_str (map Some (xs @ [0]) @ rest) = Inr xs"
  by (induction xs) auto

lemma escape_loop_from_start:
  "escape_loop str (strlen str) (2 * (strlen str + 1)) (replicate (2 * (strlen str + 1)) None) 0 0
     = Inr (map Some (escaped (c_text str))
              @ replicate (2 * (strlen str + 1) - length (escaped (c_text str))) None,
            strlen str, length (escaped (c_text str)))"
  using escape_loop_run [of 0 "strlen str" str "2 * (strlen str + 1)"]
  by (simp add: take_strlen strlen_le escaped_def)

lemma length_escaped_c_text: "length (escaped (c_text str)) \<le> 2 * strlen str"
  using length_escaped_le [of "c_text str"] by (simp add: length_c_text)

lemma escape_json_string_granted:
  assumes "alloc_ok (2 * (strlen str + 1)) h"
  shows "escape_json_string str h = (Inr (escaped_chunk str), charge h)"
proof -
  let ?L = "2 * (strlen str + 1)"
  let ?out = "escaped (c_text str)"
  define r where "r = ?L - (length ?out + 1)"
  have r: "?L - length ?out = Suc r"
    using length_escaped_c_text [of str] by (simp add: r_def)
  have r': "?L - (length ?out + 1) = r"
    by (simp add: r_def)
  have "store (map Some ?out @ replicate (?L - length ?out) None) (length ?out) 0
          = Inr (escaped_chunk str)"
    unfolding r escaped_chunk_def r' by (rule store_fresh)
  then show ?thesis
    unfolding escape_json_string_def Let_def
    by (simp only: bindH_Inr [of "palloc ?L" h, OF palloc_granted [OF assms]]
        escape_loop_from_start sum.case prod.case liftH_def returnH_def)
qed

lemma escape_json_string_refused:
  assumes "\<not> alloc_ok (2 * (strlen str + 1)) h"
  shows "escape_json_string str h = (Inl AllocationError, h)"
  unfolding escape_json_string_def Let_def
  by (rule bindH_Inl [of "palloc (2 * (strlen str + 1))" h, OF palloc_refused [OF assms]])

lemma c_str_escaped_chunk: "c_str (escaped_chunk str) = Inr (escaped (c_text str))"
  unfolding escaped_chunk_def
  by (rule c_str_terminated) (rule escaped_nonzero, rule c_text_nonzero)

subsection \<open>The shape of escaped text\<close>

lemma escaped_Nil: "escaped [] = []"
  by (simp add: escaped_def)

lemma escaped_Cons: "escaped (b # t) = escape_table b @ escaped t"
  by (simp add: escaped_def)

lemma escape_table_plain: "b \<notin> special \<Longrightarrow> escape_table b = [b]"
  by (simp add: escape_table_def special_def)

lemma escaped_plain: "set t \<inter> special = {} \<Longrightarrow> escaped t = t"
  by (induction t) (simp_all add: escaped_Nil escaped_Cons escape_table_plain)

lemma escape_table_cases:
  obtains (plain) "b \<notin> special" "escape_table b = [b]"
  | (pair) c where "b \<in> special" "escape_table b = [0x5C, c]"
      "c \<in> {0x5C, 0x22, 0x6E, 0x72, 0x74, 0x62, 0x66}"
  by (cases "b \<in> special") (auto simp: escape_table_def special_def)

lemma well_escaped_plain:
  "b \<noteq> 0x5C \<Longrightarrow> b \<noteq> 0x22 \<Longrightarrow> well_escaped (b # rest) = well_escaped rest"
  by (cases rest) auto

lemma well_escaped_escaped: "well_escaped (escaped t)"
proof (induction t)
  case Nil
  show ?case by (simp add: escaped_Nil)
next
  case (Cons b t)
  show ?case
  proof (cases b rule: escape_table_cases)
    case plain
    then have "b \<noteq> 0x5C" "b \<noteq> 0x22" by (auto simp: special_def)
    then show ?thesis
      using Cons plain by (simp add: escaped_Cons well_escaped_plain)
  next
    case (pair c)
    then show ?thesis
      using Cons by (simp add: escaped_Cons)
  qed
qed

lemma escaped_no_raw_control:
  "b \<in> set (escaped t) \<Longrightarrow> b \<notin> {0x0A, 0x0D, 0x09, 0x08, 0x0C}"
proof (induction t)
  case Nil
  then show ?case by (simp add: escaped_Nil)
next
  case (Cons a t)
  show ?case
  proof (cases a rule: escape_table_cases)
    case plain
    then show ?thesis
      using Cons by (auto simp: escaped_Cons special_def)
  next
    case (pair c)
    then show ?thesis
      using Cons by (auto simp: escaped_Cons)
  qed
qed

lemma string_end_escape_table:
  "string_end (escape_table b @ xs)
     = map_option (\<lambda>n. n + length (escape_table b)) (string_end xs)"
proof (cases b rule: escape_table_cases)
  case plain
  then have "b \<noteq> 0x5C" "b \<noteq> 0x22" by (auto simp: special_def)
  then show ?thesis
    using plain by (simp add: option.map_ident cong: option.map_cong)
next
  case (pair c)
  then show ?thesis by simp
qed

lemma string_end_escaped:
  "string_end (escaped t @ 0x22 # rest) = Some (length (escaped t))"
proof (induction t)
  case Nil
  show ?case by (simp add: escaped_Nil)
next
  case (Cons b t)
  then show ?case
    by (simp add: escaped_Cons string_end_escape_table)
qed

lemma json_unescape_escape_table:
  "json_unescape (escape_table b @ xs)
     = (if json_escapable b then map_option ((#) b) (json_unescape xs) else None)"
proof (cases b rule: escape_table_cases)
  case plain
  then have "b \<noteq> 0x5C" "b \<noteq> 0x22" "b \<notin> {0x0A, 0x0D, 0x09, 0x08, 0x0C}"
    by (auto simp: special_def)
  then show ?thesis
    using plain by (auto simp: json_unescape.simps json_escapable_def not_le)
next
  case (pair c)
  then show ?thesis
    by (auto simp: json_unescape.simps escape_table_def special_def json_escapable_def
        split: if_splits)
qed

lemma json_unescape_escaped:
  "json_unescape (escaped t) = (if list_all json_escapable t then Some t else None)"
proof (induction t)
  case Nil
  show ?case by (simp add: escaped_Nil json_unescape.simps)
next
  case (Cons b t)
  then show ?case
    by (simp add: escaped_Cons json_unescape_escape_table)
qed

subsection \<open>The returned string\<close>

lemma returned_string_escape:
  "alloc_ok (2 * (strlen str + 1)) h
     \<Longrightarrow> returned_string (escape_json_string str h) = Inr (escaped (c_text str))"
  by (simp add: returned_string_def escape_json_string_granted c_str_escaped_chunk)

subsection \<open>Escaping exhaustiveness\<close>

text \<open>
  C2. Whenever the host grants the allocation, the string returned by
  \<open>escape_json_string\<close> is the concatenation, in input order, of what the table of the
  specification gives for each byte of the input string: the two-byte sequence of the
  table for each of the seven special bytes, and the byte itself, in place, for every
  other byte. And the \<open>switch\<close> of the loop body, run on any byte value \<open>ch\<close> whatever with
  room for two more bytes, appends to what is written so far exactly what the table gives
  for \<open>ch\<close>. (The input is a C string: the byte value 0 ends it, so the loop never runs on
  that value, although the \<open>switch\<close> would copy it like any other.)
\<close>

theorem escape_json_string_follows_table:
  assumes "alloc_ok (2 * (strlen str + 1)) h"
  shows "returned_string (escape_json_string str h)
           = Inr (concat (map escape_table (c_text str)))
       \<and> escape_switch ch (map Some xs @ replicate (r + 2) None) (length xs)
           = Inr (map Some (xs @ escape_table ch)
                    @ replicate (r + 2 - length (escape_table ch)) None,
                  length xs + length (escape_table ch))"
  using returned_string_escape [OF assms] escape_switch_fresh [of "r + 2" ch xs]
  by (simp add: escaped_def)

theorem escape_json_string_follows_table_witness:
  "alloc_ok (2 * (strlen [0x5C, 0x22, 0x0A, 0x0D, 0x09, 0x08, 0x0C, 0x41, 0x7F, 0xC3, 0xA9, 0] + 1))
     \<lparr>allocs_left = 1, events = []\<rparr>
   \<and> returned_string
         (escape_json_string [0x5C, 0x22, 0x0A, 0x0D, 0x09, 0x08, 0x0C, 0x41, 0x7F, 0xC3, 0xA9, 0]
            \<lparr>allocs_left = 1, events = []\<rparr>)
       = Inr [0x5C, 0x5C, 0x5C, 0x22, 0x5C, 0x6E, 0x5C, 0x72, 0x5C, 0x74, 0x5C, 0x62, 0x5C, 0x66,
              0x41, 0x7F, 0xC3, 0xA9]
   \<and> escape_switch 0x0C [Some 0x41, None, None, None] 1
       = Inr ([Some 0x41, Some 0x5C, Some 0x66, None], 3)
   \<and> escape_switch 0 [Some 0x41, None, None, None] 1
       = Inr ([Some 0x41, Some 0, None, None], 2)"
proof -
  have ok: "alloc_ok
              (2 * (strlen [0x5C, 0x22, 0x0A, 0x0D, 0x09, 0x08, 0x0C, 0x41, 0x7F, 0xC3, 0xA9, 0] + 1))
              \<lparr>allocs_left = 1, events = []\<rparr>"
    by (simp add: alloc_ok_def strlen_def MaxAllocSize_def)
  have a: "escape_table 0x0C = [0x5C, 0x66]" and b: "escape_table 0 = [0]"
    by (simp_all add: escape_table_def)
  have s1: "escape_switch 0x0C [Some 0x41, None, None, None] 1
              = Inr ([Some 0x41, Some 0x5C, Some 0x66, None], 3)"
    using escape_json_string_follows_table [OF ok, THEN conjunct2, of "0x0C" "[0x41]" 1]
    unfolding a by (simp add: numeral_eq_Suc)
  have s2: "escape_switch 0 [Some 0x41, None, None, None] 1
              = Inr ([Some 0x41, Some 0, None, None], 2)"
    using escape_json_string_follows_table [OF ok, THEN conjunct2, of 0 "[0x41]" 1]
    unfolding b by (simp add: numeral_eq_Suc)
  have s0: "returned_string
         (escape_json_string [0x5C, 0x22, 0x0A, 0x0D, 0x09, 0x08, 0x0C, 0x41, 0x7F, 0xC3, 0xA9, 0]
            \<lparr>allocs_left = 1, events = []\<rparr>)
       = Inr [0x5C, 0x5C, 0x5C, 0x22, 0x5C, 0x6E, 0x5C, 0x72, 0x5C, 0x74, 0x5C, 0x62, 0x5C, 0x66,
              0x41, 0x7F, 0xC3, 0xA9]"
    using escape_json_string_follows_table [OF ok, THEN conjunct1]
    by (simp add: c_text_def escape_table_def)
  show ?thesis
    using ok s0 s1 s2 by blast
qed

subsection \<open>Identity on strings without special bytes\<close>

text \<open>
  C9. Whenever the host grants the allocation and the input string contains none of the
  seven special bytes, the string returned by \<open>escape_json_string\<close> is the input string,
  byte for byte.
\<close>

theorem escape_json_string_identity:
  assumes "alloc_ok (2 * (strlen str + 1)) h" and "set (c_text str) \<inter> special = {}"
  shows "returned_string (escape_json_string str h) = Inr (c_text str)"
  using returned_string_escape [OF assms(1)] escaped_plain [OF assms(2)] by simp

theorem escape_json_string_identity_witness:
  "alloc_ok (2 * (strlen [0x41, 0x7B, 0x01, 0x7F, 0xE2, 0x82, 0xAC, 0] + 1))
     \<lparr>allocs_left = 1, events = []\<rparr>
   \<and> set (c_text [0x41, 0x7B, 0x01, 0x7F, 0xE2, 0x82, 0xAC, 0]) \<inter> special = {}
   \<and> returned_string
         (escape_json_string [0x41, 0x7B, 0x01, 0x7F, 0xE2, 0x82, 0xAC, 0]
            \<lparr>allocs_left = 1, events = []\<rparr>)
       = Inr [0x41, 0x7B, 0x01, 0x7F, 0xE2, 0x82, 0xAC]"
proof -
  have ok: "alloc_ok (2 * (strlen [0x41, 0x7B, 0x01, 0x7F, 0xE2, 0x82, 0xAC, 0] + 1))
              \<lparr>allocs_left = 1, events = []\<rparr>"
    by (simp add: alloc_ok_def strlen_def MaxAllocSize_def)
  have plain: "set (c_text [0x41, 0x7B, 0x01, 0x7F, 0xE2, 0x82, 0xAC, 0]) \<inter> special = {}"
    by (simp add: c_text_def special_def)
  show ?thesis
    using ok plain escape_json_string_identity [OF ok plain] by (simp add: c_text_def)
qed

subsection \<open>No truncation\<close>

lemma escape_table_nonempty: "escape_table b \<noteq> []"
  by (simp add: escape_table_def)

lemma length_escaped_ge: "length t \<le> length (escaped t)"
proof (induction t)
  case Nil
  show ?case by (simp add: escaped_Nil)
next
  case (Cons b t)
  have "1 \<le> length (escape_table b)"
    using length_escape_table [of b] by auto
  with Cons show ?case by (simp add: escaped_Cons)
qed

lemma returned_string_escape_refused:
  "\<not> alloc_ok (2 * (strlen str + 1)) h
     \<Longrightarrow> returned_string (escape_json_string str h) = Inl AllocationError"
  by (simp add: returned_string_def escape_json_string_refused)

text \<open>
  C5. The loop of \<open>escape_json_string\<close>, started on the fresh chunk, ends with \<open>i\<close> equal to
  the length of the input, that is by its loop condition and not by the guard on \<open>j\<close>, with
  no write outside the chunk. The function returns the escaped form of the whole input or,
  when the host refuses the allocation, raises the allocation error: it never returns
  less. The output has at least one byte for each input byte, and with its terminator it
  takes at most two bytes for each input byte plus one, which is less than the
  \<open>2 * (str_len + 1)\<close> bytes allocated. When the allocation is granted, its size, and so
  both indices, are below \<open>2 ^ 31\<close>.
\<close>

theorem escape_json_string_never_truncates:
  "escape_loop str (strlen str) (2 * (strlen str + 1))
           (replicate (2 * (strlen str + 1)) None) 0 0
         = Inr (map Some (escaped (c_text str))
                  @ replicate (2 * (strlen str + 1) - length (escaped (c_text str))) None,
                strlen str, length (escaped (c_text str)))
       \<and> returned_string (escape_json_string str h)
           = (if alloc_ok (2 * (strlen str + 1)) h then Inr (escaped (c_text str))
              else Inl AllocationError)
       \<and> strlen str \<le> length (escaped (c_text str))
       \<and> length (escaped (c_text str)) + 1 \<le> 2 * strlen str + 1
       \<and> 2 * strlen str + 1 < 2 * (strlen str + 1)
       \<and> (alloc_ok (2 * (strlen str + 1)) h \<longrightarrow> 2 * (strlen str + 1) < 2 ^ 31)"
proof -
  have "strlen str \<le> length (escaped (c_text str))"
    using length_escaped_ge [of "c_text str"] by (simp add: length_c_text)
  moreover have "alloc_ok (2 * (strlen str + 1)) h \<longrightarrow> 2 * (strlen str + 1) < (2::nat) ^ 31"
    by (simp add: alloc_ok_def MaxAllocSize_def)
  moreover have "returned_string (escape_json_string str h)
           = (if alloc_ok (2 * (strlen str + 1)) h then Inr (escaped (c_text str))
              else Inl AllocationError)"
    by (simp add: returned_string_escape returned_string_escape_refused)
  ultimately show ?thesis
    using escape_loop_from_start [of str] length_escaped_c_text [of str]
    by simp
qed

theorem escape_json_string_never_truncates_witness:
  "escape_loop [0x22, 0x5C, 0x0A, 0] 3 8 (replicate 8 None) 0 0
       = Inr (map Some [0x5C, 0x22, 0x5C, 0x5C, 0x5C, 0x6E] @ replicate 2 None, 3, 6)
   \<and> returned_string (escape_json_string [0x22, 0x5C, 0x0A, 0] \<lparr>allocs_left = 1, events = []\<rparr>)
       = Inr [0x5C, 0x22, 0x5C, 0x5C, 0x5C, 0x6E]
   \<and> returned_string (escape_json_string [0x22, 0x5C, 0x0A, 0] \<lparr>allocs_left = 0, events = []\<rparr>)
       = Inl AllocationError"
proof -
  have len: "strlen [0x22, 0x5C, 0x0A, 0] = 3"
    by (simp add: strlen_def)
  have esc: "escaped (c_text [0x22, 0x5C, 0x0A, 0]) = [0x5C, 0x22, 0x5C, 0x5C, 0x5C, 0x6E]"
    by (simp add: c_text_def escaped_def escape_table_def)
  show ?thesis
    using escape_json_string_never_truncates
            [of "[0x22, 0x5C, 0x0A, 0]" "\<lparr>allocs_left = 1, events = []\<rparr>"]
          escape_json_string_never_truncates
            [of "[0x22, 0x5C, 0x0A, 0]" "\<lparr>allocs_left = 0, events = []\<rparr>"]
    unfolding len esc by (simp add: alloc_ok_def MaxAllocSize_def)
qed

subsection \<open>The output inside a string literal\<close>

lemma well_escaped_quote_position:
  assumes "well_escaped xs" and "k < length xs" and "xs ! k = 0x22"
  shows "0 < k \<and> xs ! (k - 1) = 0x5C"
  using assms
proof (induction xs arbitrary: k rule: well_escaped.induct)
  case 1
  then show ?case by simp
next
  case (2 b)
  then show ?case by simp
next
  case (3 b c rest)
  show ?case
  proof (cases "b = 0x5C")
    case True
    with "3.prems" have rest: "well_escaped rest" by simp
    show ?thesis
    proof (cases k)
      case 0
      with "3.prems" True show ?thesis by simp
    next
      case (Suc k')
      show ?thesis
      proof (cases k')
        case 0
        with Suc True show ?thesis by simp
      next
        case (Suc k'')
        with \<open>k = Suc k'\<close> "3.prems" have "k'' < length rest" "rest ! k'' = 0x22"
          by simp_all
        from "3.IH"(1) [OF True rest this]
        show ?thesis
          using Suc \<open>k = Suc k'\<close> by (cases k'') simp_all
      qed
    qed
  next
    case False
    with "3.prems" have b: "b \<noteq> 0x22" and tail: "well_escaped (c # rest)" by simp_all
    show ?thesis
    proof (cases k)
      case 0
      with "3.prems" b show ?thesis by simp
    next
      case (Suc k')
      with "3.prems" have "k' < length (c # rest)" "(c # rest) ! k' = 0x22"
        by simp_all
      from "3.IH"(2) [OF False tail this]
      show ?thesis
        using Suc by (cases k') simp_all
    qed
  qed
qed

text \<open>
  C10. Whenever the host grants the allocation, the string returned by
  \<open>escape_json_string\<close> contains no newline, carriage return, tab, backspace or form-feed
  byte; read from the left it consists of two-byte escapes, a backslash followed by one of
  the seven escape letters, and of single bytes that are neither a backslash nor a
  quotation mark, so that a backslash occurs only as the first or the second byte of an
  escape; every quotation mark in it stands right after a backslash, as the second byte of
  an escape; and a lexer that reads the output followed by a quotation mark finds the end
  of the literal at that quotation mark, not earlier.
\<close>

theorem escaped_output_embeds:
  assumes "alloc_ok (2 * (strlen str + 1)) h"
  shows "\<exists>out. returned_string (escape_json_string str h) = Inr out
               \<and> (\<forall>b \<in> set out. b \<notin> {0x0A, 0x0D, 0x09, 0x08, 0x0C})
               \<and> well_escaped out
               \<and> (\<forall>k<length out. out ! k = 0x22 \<longrightarrow> 0 < k \<and> out ! (k - 1) = 0x5C)
               \<and> (\<forall>rest. string_end (out @ 0x22 # rest) = Some (length out))"
  using returned_string_escape [OF assms] escaped_no_raw_control well_escaped_escaped
    string_end_escaped well_escaped_quote_position [OF well_escaped_escaped]
  by blast

theorem escaped_output_embeds_witness:
  "alloc_ok (2 * (strlen [0x22, 0x7D, 0x5C, 0x0A, 0] + 1)) \<lparr>allocs_left = 1, events = []\<rparr>
   \<and> (\<exists>out. returned_string
                (escape_json_string [0x22, 0x7D, 0x5C, 0x0A, 0] \<lparr>allocs_left = 1, events = []\<rparr>)
              = Inr out
            \<and> out = [0x5C, 0x22, 0x7D, 0x5C, 0x5C, 0x5C, 0x6E]
            \<and> list_all (\<lambda>b. b \<notin> {0x0A, 0x0D, 0x09, 0x08, 0x0C}) out
            \<and> well_escaped out
            \<and> string_end (out @ [0x22, 0x7D]) = Some 7)"
proof -
  have ok: "alloc_ok (2 * (strlen [0x22, 0x7D, 0x5C, 0x0A, 0] + 1))
              \<lparr>allocs_left = 1, events = []\<rparr>"
    by (simp add: alloc_ok_def strlen_def MaxAllocSize_def)
  have esc: "returned_string
               (escape_json_string [0x22, 0x7D, 0x5C, 0x0A, 0] \<lparr>allocs_left = 1, events = []\<rparr>)
             = Inr [0x5C, 0x22, 0x7D, 0x5C, 0x5C, 0x5C, 0x6E]"
    using returned_string_escape [OF ok] by (simp add: c_text_def escaped_def escape_table_def)
  obtain out where out:
    "returned_string
       (escape_json_string [0x22, 0x7D, 0x5C, 0x0A, 0] \<lparr>allocs_left = 1, events = []\<rparr>)
     = Inr out"
    "\<forall>b \<in> set out. b \<notin> {0x0A, 0x0D, 0x09, 0x08, 0x0C}"
    "well_escaped out"
    "\<forall>rest. string_end (out @ 0x22 # rest) = Some (length out)"
    using escaped_output_embeds [OF ok] by blast
  have eq: "out = [0x5C, 0x22, 0x7D, 0x5C, 0x5C, 0x5C, 0x6E]"
    using out(1) esc by simp
  have "string_end (out @ [0x22, 0x7D]) = Some 7"
    using out(4) eq by simp
  then show ?thesis
    using ok out eq by (simp add: list_all_iff)
qed

subsection \<open>Round trip through a JSON string decoder\<close>

text \<open>
  Decoding gives the input back exactly when every byte of the input is one that the
  escaper leaves in a form a string literal may hold; otherwise the decoder rejects the
  output.
\<close>

lemma escape_round_trip_when_escapable:
  assumes "alloc_ok (2 * (strlen str + 1)) h" and "list_all json_escapable (c_text str)"
  shows "\<exists>out. returned_string (escape_json_string str h) = Inr out
               \<and> json_unescape out = Some (c_text str)"
  using returned_string_escape [OF assms(1)] assms(2) by (simp add: json_unescape_escaped)

lemma escape_no_round_trip_otherwise:
  assumes "alloc_ok (2 * (strlen str + 1)) h" and "\<not> list_all json_escapable (c_text str)"
  shows "\<exists>out. returned_string (escape_json_string str h) = Inr out \<and> json_unescape out = None"
  using returned_string_escape [OF assms(1)] assms(2) by (simp add: json_unescape_escaped)

text \<open>
  C1. The round trip fails for the string that consists of the control byte \<open>0x01\<close>:
  \<open>escape_json_string\<close> returns the byte as it is, and a JSON string may not contain it
  unescaped, so the decoder rejects the output instead of giving the input back.
\<close>

theorem control_byte_not_round_tripped:
  "returned_string (escape_json_string [0x01, 0] \<lparr>allocs_left = 1, events = []\<rparr>) = Inr [0x01]
   \<and> json_unescape [0x01] = None"
proof -
  have ok: "alloc_ok (2 * (strlen [0x01, 0] + 1)) \<lparr>allocs_left = 1, events = []\<rparr>"
    by (simp add: alloc_ok_def strlen_def MaxAllocSize_def)
  have "returned_string (escape_json_string [0x01, 0] \<lparr>allocs_left = 1, events = []\<rparr>)
          = Inr [0x01]"
    using returned_string_escape [OF ok] by (simp add: c_text_def escaped_def escape_table_def)
  moreover have "json_unescape [0x01] = None"
    by (simp add: json_unescape.simps)
  ultimately show ?thesis by simp
qed

section \<open>The paths of postal_normalize\<close>

lemma host_alloc_run:
  "host_alloc sz h = (if alloc_ok sz h then (Inr (), charge h) else (Inl AllocationError, h))"
  by (simp add: host_alloc_def)

lemma host_call_run:
  "host_call h = (if 0 < allocs_left h then (Inr (), charge h) else (Inl AllocationError, h))"
  by (simp add: host_call_def host_alloc_def alloc_ok_def)

lemma text_to_cstring_run:
  "text_to_cstring t h
     = (if alloc_ok (length t + 1) h then (Inr (t @ [0]), charge h) else (Inl AllocationError, h))"
  by (simp add: text_to_cstring_def bindH_def returnH_def host_alloc_run)

lemma cstring_to_text_run:
  "cstring_to_text s h
     = (if alloc_ok (strlen s + VARHDRSZ) h then (Inr (c_text s), charge h)
        else (Inl AllocationError, h))"
  by (simp add: cstring_to_text_def bindH_def returnH_def host_alloc_run)

lemma palloc_cells_run:
  "palloc_cells elsize n h
     = (if alloc_ok (elsize * n) h then (Inr (replicate n None), charge h)
        else (Inl AllocationError, h))"
  by (simp add: palloc_cells_def bindH_def returnH_def host_alloc_run)

lemma escape_json_string_run:
  "escape_json_string str h
     = (if alloc_ok (2 * (strlen str + 1)) h then (Inr (escaped_chunk str), charge h)
        else (Inl AllocationError, h))"
  by (simp add: escape_json_string_granted escape_json_string_refused)

lemma events_charge: "events (charge h) = events h"
  by (simp add: charge_def)

lemma allocs_left_charge: "allocs_left (charge h) = allocs_left h - 1"
  by (simp add: charge_def)

lemma read_cells_filled: "read_cells (map Some xs) (length xs) = Inr xs"
  by (induction xs) simp_all

lemma filled_0: "filled expansions n 0 = replicate n None"
  by (simp add: filled_def)

lemma filled_all: "n \<le> length expansions \<Longrightarrow> filled expansions n n = map Some (map c_text (take n expansions))"
  by (simp add: filled_def)

lemma store_filled:
  assumes "i < n" and "i < length expansions"
  shows "store (filled expansions n i) i (c_text (expansions ! i)) = Inr (filled expansions n (Suc i))"
proof -
  have n: "n - i = Suc (n - Suc i)"
    using assms(1) by simp
  have len: "length (map c_text (take i expansions)) = i"
    using assms(2) by simp
  show ?thesis
    unfolding filled_def n
    using store_fresh [of "map c_text (take i expansions)" "n - Suc i" "c_text (expansions ! i)",
        unfolded len]
    by (simp add: take_Suc_conv_app_nth [OF assms(2)])
qed

lemma normalize_loop_quiet:
  "events (snd (normalize_loop expansions n arr_elems i h)) = events h"
proof (induction "n - i" arbitrary: i arr_elems h)
  case 0
  then show ?case by (simp add: normalize_loop.simps)
next
  case (Suc d)
  then have lt: "i < n" and d: "d = n - Suc i" by simp_all
  note IH = Suc.hyps(1) [OF d]
  show ?case
    by (subst normalize_loop.simps)
       (simp add: lt IH cstring_to_text_run events_charge split: sum.splits)
qed

lemma normalize_loop_returns:
  assumes "normalize_loop expansions n (filled expansions n i) i h = (Inr arr, h')"
    and "i \<le> n" and "i \<le> length expansions"
  shows "arr = filled expansions n n \<and> n \<le> length expansions"
  using assms
proof (induction "n - i" arbitrary: i h)
  case 0
  then show ?case by (simp add: normalize_loop.simps)
next
  case (Suc d)
  then have lt: "i < n" and d: "d = n - Suc i" by simp_all
  from Suc.prems(1) have inb: "i < length expansions"
    by (subst (asm) normalize_loop.simps) (simp add: lt fetch_def split: if_splits)
  from Suc.prems(1) have
    "normalize_loop expansions n (filled expansions n (Suc i)) (Suc i) (charge h) = (Inr arr, h')"
    by (subst (asm) normalize_loop.simps)
       (simp add: lt inb fetch_def cstring_to_text_run store_filled split: if_splits)
  then show ?case
    using Suc.hyps(1) [OF d] lt inb by simp
qed

lemma normalize_loop_succeeds:
  assumes "i \<le> n" and "n \<le> length expansions"
    and "\<forall>s \<in> set (take n expansions). strlen s + VARHDRSZ \<le> MaxAllocSize"
    and "n - i \<le> allocs_left h"
  shows "normalize_loop expansions n (filled expansions n i) i h
           = (Inr (filled expansions n n), h\<lparr>allocs_left := allocs_left h - (n - i)\<rparr>)"
  using assms(1,4)
proof (induction "n - i" arbitrary: i h)
  case 0
  then show ?case by (simp add: normalize_loop.simps)
next
  case (Suc d)
  then have lt: "i < n" and d: "d = n - Suc i" by simp_all
  have inb: "i < length expansions"
    using lt assms(2) by simp
  have "expansions ! i \<in> set (take n expansions)"
    using lt inb by (metis in_set_conv_nth length_take min_less_iff_conj nth_take)
  then have ok: "alloc_ok (strlen (expansions ! i) + VARHDRSZ) h"
    using assms(3) Suc.prems(2) lt by (simp add: alloc_ok_def)
  have IH: "normalize_loop expansions n (filled expansions n (Suc i)) (Suc i) (charge h)
              = (Inr (filled expansions n n),
                 (charge h)\<lparr>allocs_left := allocs_left (charge h) - (n - Suc i)\<rparr>)"
    using Suc.hyps(1) [OF d, of "charge h"] lt Suc.prems(2) by (simp add: allocs_left_charge)
  have h: "(charge h)\<lparr>allocs_left := allocs_left (charge h) - (n - Suc i)\<rparr>
             = h\<lparr>allocs_left := allocs_left h - (n - i)\<rparr>"
    using lt by (simp add: charge_def)
  show ?case
    by (subst normalize_loop.simps)
       (simp add: lt inb fetch_def cstring_to_text_run ok store_filled IH h)
qed


lemma bindH_InrE:
  assumes "bindH m f h = (Inr b, h')"
  obtains a h1 where "m h = (Inr a, h1)" and "f a h1 = (Inr b, h')"
  using assms by (auto simp: bindH_def split: prod.splits sum.splits)

lemma bindH_InlE:
  assumes "bindH m f h = (Inl e, h')"
  obtains (first) "m h = (Inl e, h')"
  | (later) a h1 where "m h = (Inr a, h1)" and "f a h1 = (Inl e, h')"
  using assms by (auto simp: bindH_def split: prod.splits sum.splits)

lemma record_event_run: "record_event ev h = (Inr (), h\<lparr>events := events h @ [ev]\<rparr>)"
  by (simp add: record_event_def)

lemma libpostal_expand_address_run:
  "libpostal_expand_address expand s h = (Inr (expand s), h\<lparr>events := events h @ [ExpandAddress]\<rparr>)"
  by (simp add: libpostal_expand_address_def bindH_def record_event_run returnH_def)

lemma construct_array_run:
  "construct_array arr_elems n h
     = (case read_cells arr_elems n of
          Inl e \<Rightarrow> (Inl e, h)
        | Inr xs \<Rightarrow> if 0 < allocs_left h then (Inr xs, charge h) else (Inl AllocationError, h))"
  by (simp add: construct_array_def bindH_def liftH_def raiseH_def returnH_def host_call_run
      split: sum.splits)

lemma read_cells_filled_all:
  "n \<le> length expansions
     \<Longrightarrow> read_cells (filled expansions n n) n = Inr (map c_text (take n expansions))"
  using read_cells_filled [of "map c_text (take n expansions)"] by (simp add: filled_all)

lemma normalize_loop_state:
  "normalize_loop expansions n arr_elems i h = (r, h') \<Longrightarrow> events h' = events h"
  using normalize_loop_quiet [of expansions n arr_elems i h] by simp

lemma postal_normalize_unfold:
  assumes "expand (address @ [0]) = (expansions, n)"
  shows "postal_normalize expand address h =
    (if \<not> alloc_ok (length address + 1) h then (Inl AllocationError, h)
     else if \<not> alloc_ok (sizeof_Datum * n) ((charge h)\<lparr>events := events h @ [ExpandAddress]\<rparr>)
       then (Inl AllocationError, (charge h)\<lparr>events := events h @ [ExpandAddress]\<rparr>)
     else if \<not> 0 < allocs_left (charge ((charge h)\<lparr>events := events h @ [ExpandAddress]\<rparr>))
       then (Inl AllocationError, charge ((charge h)\<lparr>events := events h @ [ExpandAddress]\<rparr>))
     else (case normalize_loop expansions n (filled expansions n 0) 0
                  (charge (charge ((charge h)\<lparr>events := events h @ [ExpandAddress]\<rparr>))) of
             (Inl e, h5) \<Rightarrow> (Inl e, h5)
           | (Inr arr_elems', h5) \<Rightarrow>
               (case construct_array arr_elems' n h5 of
                  (Inl e, h6) \<Rightarrow> (Inl e, h6)
                | (Inr arr, h6) \<Rightarrow>
                    (Inr arr, h6\<lparr>events := events h6 @ [ExpansionArrayDestroy]\<rparr>))))"
  by (simp add: postal_normalize_def bindH_def text_to_cstring_run libpostal_expand_address_run
      assms palloc_cells_run get_typlenbyvalalign_def host_call_run filled_0
      libpostal_expansion_array_destroy_def record_event_run returnH_def events_charge
      split: prod.splits sum.splits)

lemma construct_array_state:
  "construct_array arr_elems n h = (r, h') \<Longrightarrow> events h' = events h"
  by (auto simp: construct_array_run events_charge split: sum.splits if_splits)

lemma postal_normalize_returns:
  assumes e: "expand (address @ [0]) = (expansions, n)"
    and run: "postal_normalize expand address h = (Inr arr, h')"
  shows "arr = map c_text (take n expansions) \<and> n \<le> length expansions
         \<and> events h' = events h @ [ExpandAddress, ExpansionArrayDestroy]"
proof -
  let ?h2 = "(charge h)\<lparr>events := events h @ [ExpandAddress]\<rparr>"
  let ?h4 = "charge (charge ?h2)"
  from run obtain arr_elems' h5 h6 where
    loop: "normalize_loop expansions n (filled expansions n 0) 0 ?h4 = (Inr arr_elems', h5)"
    and arr: "construct_array arr_elems' n h5 = (Inr arr, h6)"
    and h': "h' = h6\<lparr>events := events h6 @ [ExpansionArrayDestroy]\<rparr>"
    unfolding postal_normalize_unfold [of expand address, OF e]
    by (auto split: if_splits prod.splits sum.splits)
  from normalize_loop_returns [OF loop] have
    elems: "arr_elems' = filled expansions n n" and n: "n \<le> length expansions"
    by simp_all
  have "events h5 = events ?h4"
    using loop by (rule normalize_loop_state)
  moreover have "events h6 = events h5"
    using arr by (rule construct_array_state)
  ultimately have ev: "events h' = events h @ [ExpandAddress, ExpansionArrayDestroy]"
    by (simp add: h' events_charge)
  have "arr = map c_text (take n expansions)"
    using arr unfolding elems
    by (simp add: construct_array_run read_cells_filled_all [OF n] split: if_splits)
  with n ev show ?thesis by simp
qed

lemma postal_normalize_raises_where:
  assumes run: "postal_normalize expand address h = (Inl e, h')"
  shows "events h' = (if alloc_ok (length address + 1) h then events h @ [ExpandAddress]
                      else events h)"
proof -
  obtain expansions n where e: "expand (address @ [0]) = (expansions, n)"
    by (cases "expand (address @ [0])")
  let ?h2 = "(charge h)\<lparr>events := events h @ [ExpandAddress]\<rparr>"
  let ?h4 = "charge (charge ?h2)"
  have loop: "events h5 = events h @ [ExpandAddress]"
    if "normalize_loop expansions n (filled expansions n 0) 0 ?h4 = (r, h5)" for r h5
    using normalize_loop_state [OF that] by (simp add: events_charge)
  have tail: "events h6 = events h @ [ExpandAddress]"
    if "normalize_loop expansions n (filled expansions n 0) 0 ?h4 = (Inr arr_elems', h5)"
      and "construct_array arr_elems' n h5 = (r, h6)" for arr_elems' r h5 h6
    using loop [OF that(1)] construct_array_state [OF that(2)] by simp
  from run show ?thesis
    unfolding postal_normalize_unfold [of expand address, OF e]
    by (auto simp: events_charge split: if_splits prod.splits sum.splits dest: loop tail)
qed

lemma postal_normalize_succeeds:
  assumes e: "expand (address @ [0]) = (expansions, n)"
    and n: "n \<le> length expansions"
    and addr: "length address + 1 \<le> MaxAllocSize"
    and arr: "sizeof_Datum * n \<le> MaxAllocSize"
    and strs: "\<forall>s \<in> set (take n expansions). strlen s + VARHDRSZ \<le> MaxAllocSize"
    and mem: "n + 4 \<le> allocs_left h"
  shows "postal_normalize expand address h
           = (Inr (map c_text (take n expansions)),
              h\<lparr>allocs_left := allocs_left h - (n + 4),
                events := events h @ [ExpandAddress, ExpansionArrayDestroy]\<rparr>)"
proof -
  let ?h2 = "(charge h)\<lparr>events := events h @ [ExpandAddress]\<rparr>"
  let ?h4 = "charge (charge ?h2)"
  have left: "allocs_left ?h4 = allocs_left h - 3"
    by (simp add: charge_def)
  have loop: "normalize_loop expansions n (filled expansions n 0) 0 ?h4
                = (Inr (filled expansions n n), ?h4\<lparr>allocs_left := allocs_left ?h4 - (n - 0)\<rparr>)"
    using mem by (intro normalize_loop_succeeds n strs) (simp_all add: left)
  show ?thesis
    unfolding postal_normalize_unfold [of expand address, OF e] loop
    using mem addr arr
    by (simp add: alloc_ok_def construct_array_run read_cells_filled_all [OF n] charge_def)
qed

section \<open>The paths of postal_parse\<close>

lemma appendStringInfoChar_run:
  "appendStringInfoChar strbuf ch h
     = (if 0 < allocs_left h then (Inr (strbuf @ [ch]), charge h) else (Inl AllocationError, h))"
  by (simp add: appendStringInfoChar_def bindH_def host_call_run returnH_def)

lemma initStringInfo_run:
  "initStringInfo h = (if 0 < allocs_left h then (Inr [], charge h) else (Inl AllocationError, h))"
  by (simp add: initStringInfo_def bindH_def host_call_run returnH_def)

lemma appendStringInfo_label_component_run:
  "appendStringInfo_label_component strbuf label component h
     = (case c_str component of
          Inl e \<Rightarrow> (Inl e, h)
        | Inr ctext \<Rightarrow>
            if 0 < allocs_left h
            then (Inr (strbuf @ [0x22] @ c_text label @ [0x22, 0x3A, 0x22] @ ctext @ [0x22]),
                  charge h)
            else (Inl AllocationError, h))"
  by (simp add: appendStringInfo_label_component_def bindH_def liftH_def raiseH_def returnH_def
      host_call_run split: sum.splits)

lemma libpostal_parse_address_run:
  "libpostal_parse_address parse s h = (Inr (parse s), h\<lparr>events := events h @ [ParseAddress]\<rparr>)"
  by (simp add: libpostal_parse_address_def bindH_def record_event_run returnH_def)

lemma parse_loop_quiet:
  "events (snd (parse_loop parsed strbuf i h)) = events h"
proof (induction "num_components parsed - i" arbitrary: i strbuf h)
  case 0
  then show ?case by (simp add: parse_loop.simps)
next
  case (Suc d)
  then have lt: "i < num_components parsed" and d: "d = num_components parsed - Suc i"
    by simp_all
  note IH = Suc.hyps(1) [OF d]
  show ?case
  proof (cases "0 < i")
    case True
    then show ?thesis
      by (subst parse_loop.simps)
         (simp add: lt IH appendStringInfoChar_run escape_json_string_run
            appendStringInfo_label_component_run c_str_escaped_chunk pfree_def returnH_def
            events_charge split: sum.splits)
  next
    case False
    then have i: "i = 0" by simp
    show ?thesis
      unfolding i
      by (subst parse_loop.simps)
         (simp add: lt [unfolded i] IH [unfolded i] escape_json_string_run
            appendStringInfo_label_component_run c_str_escaped_chunk pfree_def returnH_def
            events_charge split: sum.splits)
  qed
qed

lemma parse_loop_state:
  "parse_loop parsed strbuf i h = (r, h') \<Longrightarrow> events h' = events h"
  using parse_loop_quiet [of parsed strbuf i h] by simp

lemma parse_loop_no_components:
  "num_components parsed = 0 \<Longrightarrow> parse_loop parsed strbuf 0 h = (Inr strbuf, h)"
  by (simp add: parse_loop.simps)

lemma postal_parse_unfold:
  "postal_parse parse jsonb_in address h =
    (if \<not> alloc_ok (length address + 1) h then (Inl AllocationError, h)
     else if \<not> 0 < allocs_left ((charge h)\<lparr>events := events h @ [ParseAddress]\<rparr>)
       then (Inl AllocationError, (charge h)\<lparr>events := events h @ [ParseAddress]\<rparr>)
     else if \<not> 0 < allocs_left (charge ((charge h)\<lparr>events := events h @ [ParseAddress]\<rparr>))
       then (Inl AllocationError, charge ((charge h)\<lparr>events := events h @ [ParseAddress]\<rparr>))
     else (case parse_loop (parse (address @ [0])) [0x7B] 0
                  (charge (charge ((charge h)\<lparr>events := events h @ [ParseAddress]\<rparr>))) of
             (Inl e, h5) \<Rightarrow> (Inl e, h5)
           | (Inr strbuf2, h5) \<Rightarrow>
               if \<not> 0 < allocs_left h5 then (Inl AllocationError, h5)
               else (jsonb_in (c_text (strbuf2 @ [0x7D] @ [0])),
                     (charge h5)\<lparr>events := events h5 @ [ParserResponseDestroy]\<rparr>)))"
  by (simp add: postal_parse_def bindH_def text_to_cstring_run libpostal_parse_address_run
      initStringInfo_run appendStringInfoChar_run
      libpostal_address_parser_response_destroy_def record_event_run call_jsonb_in_def
      liftH_def raiseH_def returnH_def events_charge
      split: prod.splits sum.splits)

lemma postal_parse_returns:
  assumes run: "postal_parse parse jsonb_in address h = (Inr doc, h')"
  shows "events h' = events h @ [ParseAddress, ParserResponseDestroy]"
proof -
  let ?h4 = "charge (charge ((charge h)\<lparr>events := events h @ [ParseAddress]\<rparr>))"
  have loop: "events h5 = events h @ [ParseAddress]"
    if "parse_loop (parse (address @ [0])) [0x7B] 0 ?h4 = (r, h5)" for r h5
    using parse_loop_state [OF that] by (simp add: events_charge)
  from run show ?thesis
    unfolding postal_parse_unfold
    by (auto simp: events_charge split: if_splits prod.splits sum.splits dest: loop)
qed

lemma postal_parse_through_parser:
  "postal_parse parse jsonb_in address h
     = (case fst (postal_parse parse document_text address h) of
          Inl e \<Rightarrow> Inl e
        | Inr doc_text \<Rightarrow> jsonb_in doc_text,
        snd (postal_parse parse document_text address h))"
  unfolding postal_parse_unfold
  by (simp add: document_text_def split: prod.splits sum.splits)

lemma postal_parse_build_raises_where:
  assumes run: "postal_parse parse document_text address h = (Inl e, h')"
  shows "events h' = (if alloc_ok (length address + 1) h then events h @ [ParseAddress]
                      else events h)"
proof -
  let ?h4 = "charge (charge ((charge h)\<lparr>events := events h @ [ParseAddress]\<rparr>))"
  have loop: "events h5 = events h @ [ParseAddress]"
    if "parse_loop (parse (address @ [0])) [0x7B] 0 ?h4 = (r, h5)" for r h5
    using parse_loop_state [OF that] by (simp add: events_charge)
  from run show ?thesis
    unfolding postal_parse_unfold
    by (auto simp: events_charge document_text_def
        split: if_splits prod.splits sum.splits dest: loop)
qed

lemma postal_parse_no_components:
  assumes "num_components (parse (address @ [0])) = 0"
    and "length address + 1 \<le> MaxAllocSize" and "4 \<le> allocs_left h"
  shows "postal_parse parse jsonb_in address h
           = (jsonb_in [0x7B, 0x7D],
              h\<lparr>allocs_left := allocs_left h - 4,
                events := events h @ [ParseAddress, ParserResponseDestroy]\<rparr>)"
  using assms(2,3) unfolding postal_parse_unfold parse_loop_no_components [OF assms(1)]
  by (simp add: alloc_ok_def charge_def c_text_def)

subsection \<open>The text built\<close>

lemma document_members_finished:
  "num_components parsed \<le> i \<Longrightarrow> document_members parsed i = []"
  by (simp add: document_members_def)

lemma document_members_step:
  "i < num_components parsed
     \<Longrightarrow> document_members parsed i
           = member_text i (labels parsed ! i) (components parsed ! i)
               @ document_members parsed (Suc i)"
  by (simp add: document_members_def upt_conv_Cons)

lemma parse_loop_returns:
  assumes "parse_loop parsed strbuf i h = (Inr strbuf', h')"
  shows "strbuf' = strbuf @ document_members parsed i"
  using assms
proof (induction "num_components parsed - i" arbitrary: i strbuf h)
  case 0
  then show ?case
    by (simp add: parse_loop.simps document_members_finished)
next
  case (Suc d)
  then have lt: "i < num_components parsed" and d: "d = num_components parsed - Suc i"
    by simp_all
  note IH = Suc.hyps(1) [OF d]
  let ?m = "member_text i (labels parsed ! i) (components parsed ! i)"
  have "\<exists>h1. parse_loop parsed (strbuf @ ?m) (Suc i) h1 = (Inr strbuf', h')"
  proof (cases "0 < i")
    case True
    from Suc.prems show ?thesis
      by (subst (asm) parse_loop.simps)
         (auto simp: lt True fetch_def appendStringInfoChar_run escape_json_string_run
            appendStringInfo_label_component_run c_str_escaped_chunk pfree_def returnH_def
            member_text_def split: if_splits)
  next
    case False
    then have i: "i = 0" by simp
    from Suc.prems show ?thesis
      unfolding i
      by (subst (asm) parse_loop.simps)
         (auto simp: lt [unfolded i] fetch_def escape_json_string_run
            appendStringInfo_label_component_run c_str_escaped_chunk pfree_def returnH_def
            member_text_def split: if_splits)
  qed
  then obtain h1 where "parse_loop parsed (strbuf @ ?m) (Suc i) h1 = (Inr strbuf', h')" ..
  then have "strbuf' = (strbuf @ ?m) @ document_members parsed (Suc i)"
    by (rule IH)
  then show ?case
    by (simp add: document_members_step [OF lt])
qed

lemma member_text_nonzero: "0 \<notin> set (member_text k label component)"
  using c_text_nonzero [of label] escaped_nonzero [OF c_text_nonzero, of component]
  by (simp add: member_text_def)

lemma document_members_nonzero: "0 \<notin> set (document_members parsed i)"
  by (simp add: document_members_def member_text_nonzero)

lemma c_text_terminated: "0 \<notin> set xs \<Longrightarrow> c_text (xs @ 0 # rest) = xs"
  unfolding c_text_def by (induction xs) auto

lemma postal_parse_returns_document:
  assumes "postal_parse parse jsonb_in address h = (Inr doc, h')"
  shows "jsonb_in ([0x7B] @ document_members (parse (address @ [0])) 0 @ [0x7D]) = Inr doc"
proof -
  let ?h4 = "charge (charge ((charge h)\<lparr>events := events h @ [ParseAddress]\<rparr>))"
  from assms obtain strbuf2 h5 where
    loop: "parse_loop (parse (address @ [0])) [0x7B] 0 ?h4 = (Inr strbuf2, h5)"
    and doc: "jsonb_in (c_text (strbuf2 @ [0x7D] @ [0])) = Inr doc"
    unfolding postal_parse_unfold
    by (auto split: if_splits prod.splits sum.splits)
  have strbuf2: "strbuf2 = [0x7B] @ document_members (parse (address @ [0])) 0"
    using loop by (rule parse_loop_returns)
  have "c_text ((strbuf2 @ [0x7D]) @ 0 # []) = strbuf2 @ [0x7D]"
    by (rule c_text_terminated) (simp add: strbuf2 document_members_nonzero)
  then show ?thesis
    using doc by (simp add: strbuf2)
qed

lemma parse_loop_finished:
  "num_components parsed \<le> i \<Longrightarrow> parse_loop parsed strbuf i h = (Inr strbuf, h)"
  by (subst parse_loop.simps) simp

lemma parse_loop_control_byte:
  "parse_loop (control_byte_parse s) [0x7B] 0 \<lparr>allocs_left = 3, events = evs\<rparr>
     = (Inr [0x7B, 0x22, 0x72, 0x6F, 0x61, 0x64, 0x22, 0x3A, 0x22, 0x01, 0x22],
        \<lparr>allocs_left = 1, events = evs\<rparr>)"
  by (subst parse_loop.simps)
     (simp add: control_byte_parse_def fetch_def escape_json_string_run alloc_ok_def
        MaxAllocSize_def strlen_def appendStringInfo_label_component_run c_str_escaped_chunk
        c_text_def escaped_def escape_table_def pfree_def returnH_def charge_def
        parse_loop_finished)

section \<open>Startup\<close>

lemma PG_init_succeeds:
  "PG_init True True True h
     = (Inr (), h\<lparr>events := events h @ [Setup, SetupParser, SetupLanguageClassifier]\<rparr>)"
  by (simp add: PG_init_def orH_def notH_def bindH_def returnH_def record_event_def
      libpostal_setup_def libpostal_setup_parser_def libpostal_setup_language_classifier_def)

text \<open>
  C8. If any of the three initialisation calls fails, \<open>_PG_init\<close> raises the error
  \<open>Failed to initialize libpostal.\<close> instead of returning; the calls made are exactly those
  up to and including the first one that failed, in the order core, parser, language
  classifier, so the remaining ones are not attempted and no tear-down is called; and
  nothing else of the state has changed.
\<close>

theorem PG_init_fails_fast:
  assumes "\<not> (core_ok \<and> parser_ok \<and> classifier_ok)"
  shows "PG_init core_ok parser_ok classifier_ok h
           = (Inl (ElogError ''Failed to initialize libpostal.''),
              h\<lparr>events := events h @
                   (if \<not> core_ok then [Setup]
                    else if \<not> parser_ok then [Setup, SetupParser]
                    else [Setup, SetupParser, SetupLanguageClassifier])\<rparr>)"
proof (cases core_ok)
  case False
  then show ?thesis
    by (simp add: PG_init_def orH_def notH_def bindH_def returnH_def record_event_def
        libpostal_setup_def elog_ERROR_def raiseH_def)
next
  case core: True
  show ?thesis
  proof (cases parser_ok)
    case False
    with core show ?thesis
      by (simp add: PG_init_def orH_def notH_def bindH_def returnH_def record_event_def
          libpostal_setup_def libpostal_setup_parser_def elog_ERROR_def raiseH_def)
  next
    case True
    with core assms have "\<not> classifier_ok" by simp
    with core True show ?thesis
      by (simp add: PG_init_def orH_def notH_def bindH_def returnH_def record_event_def
          libpostal_setup_def libpostal_setup_parser_def
          libpostal_setup_language_classifier_def elog_ERROR_def raiseH_def)
  qed
qed

theorem PG_init_fails_fast_witness:
  "\<not> (True \<and> False \<and> True)
   \<and> PG_init True False True \<lparr>allocs_left = 0, events = []\<rparr>
       = (Inl (ElogError ''Failed to initialize libpostal.''),
          \<lparr>allocs_left = 0, events = [Setup, SetupParser]\<rparr>)"
  using PG_init_fails_fast [of True False True "\<lparr>allocs_left = 0, events = []\<rparr>"] by simp

section \<open>The marshalers\<close>

subsection \<open>Order preservation\<close>

text \<open>
  C6. Let the engine return the array \<open>expansions\<close> and the count \<open>n\<close>. Whenever
  \<open>postal_normalize\<close> returns an array, it has \<open>n\<close> elements and its \<open>i\<close>-th element is the
  \<open>i\<close>-th string of \<open>expansions\<close>, byte for byte, for every \<open>i < n\<close>: nothing is
  reordered, dropped or merged. And it does return that array when the engine has filled
  the \<open>n\<close> entries it reports, the host has enough memory for the \<open>n + 4\<close> allocations made,
  and no single request exceeds the host's limit.
\<close>

theorem postal_normalize_preserves_order:
  assumes "expand (address @ [0]) = (expansions, n)"
  shows "(\<forall>arr h'. postal_normalize expand address h = (Inr arr, h')
            \<longrightarrow> length arr = n \<and> (\<forall>i<n. arr ! i = c_text (expansions ! i)))
       \<and> (n \<le> length expansions \<and> length address + 1 \<le> MaxAllocSize
            \<and> sizeof_Datum * n \<le> MaxAllocSize
            \<and> (\<forall>s \<in> set (take n expansions). strlen s + VARHDRSZ \<le> MaxAllocSize)
            \<and> n + 4 \<le> allocs_left h
          \<longrightarrow> fst (postal_normalize expand address h) = Inr (map c_text (take n expansions)))"
proof (rule conjI)
  show "\<forall>arr h'. postal_normalize expand address h = (Inr arr, h')
            \<longrightarrow> length arr = n \<and> (\<forall>i<n. arr ! i = c_text (expansions ! i))"
  proof (intro allI impI)
    fix arr h'
    assume run: "postal_normalize expand address h = (Inr arr, h')"
    from postal_normalize_returns [of expand address, OF assms run]
    have arr: "arr = map c_text (take n expansions)" and n: "n \<le> length expansions"
      by simp_all
    show "length arr = n \<and> (\<forall>i<n. arr ! i = c_text (expansions ! i))"
      using n by (simp add: arr)
  qed
next
  show "n \<le> length expansions \<and> length address + 1 \<le> MaxAllocSize
            \<and> sizeof_Datum * n \<le> MaxAllocSize
            \<and> (\<forall>s \<in> set (take n expansions). strlen s + VARHDRSZ \<le> MaxAllocSize)
            \<and> n + 4 \<le> allocs_left h
          \<longrightarrow> fst (postal_normalize expand address h) = Inr (map c_text (take n expansions))"
    using postal_normalize_succeeds [of expand address, OF assms] by simp
qed

theorem postal_normalize_preserves_order_witness:
  "sample_expand ([0x31] @ [0]) = ([[0x42, 0], [0x41, 0], [0x42, 0]], 3)
   \<and> fst (postal_normalize sample_expand [0x31] \<lparr>allocs_left = 7, events = []\<rparr>)
       = Inr [[0x42], [0x41], [0x42]]"
proof -
  have e: "sample_expand ([0x31] @ [0]) = ([[0x42, 0], [0x41, 0], [0x42, 0]], 3)"
    by (simp add: sample_expand_def)
  show ?thesis
    using e postal_normalize_preserves_order
      [of sample_expand "[0x31]", OF e, of "\<lparr>allocs_left = 7, events = []\<rparr>"]
    by (simp add: MaxAllocSize_def sizeof_Datum_def VARHDRSZ_def strlen_def c_text_def)
qed

subsection \<open>Empty results\<close>

text \<open>
  C7. With memory for the four allocations made: when the engine reports zero expansions,
  \<open>postal_normalize\<close> returns the empty array, not an error; when the engine reports zero
  components, \<open>postal_parse\<close> hands the text \<open>{}\<close> to the host's document parser and returns
  what the parser makes of it, the empty document.
\<close>

theorem empty_results_are_not_errors:
  assumes "length address + 1 \<le> MaxAllocSize" and "4 \<le> allocs_left h"
  shows "(snd (expand (address @ [0])) = 0
            \<longrightarrow> fst (postal_normalize expand address h) = Inr [])
       \<and> (num_components (parse (address @ [0])) = 0
            \<longrightarrow> fst (postal_parse parse jsonb_in address h) = jsonb_in [0x7B, 0x7D])"
proof (intro conjI impI)
  assume zero: "snd (expand (address @ [0])) = 0"
  then obtain expansions where e: "expand (address @ [0]) = (expansions, 0)"
    by (cases "expand (address @ [0])") simp
  show "fst (postal_normalize expand address h) = Inr []"
    using postal_normalize_succeeds [of expand address, OF e] assms by simp
next
  assume "num_components (parse (address @ [0])) = 0"
  then show "fst (postal_parse parse jsonb_in address h) = jsonb_in [0x7B, 0x7D]"
    using assms by (simp add: postal_parse_no_components)
qed

theorem empty_results_are_not_errors_witness:
  "length ([] :: byte list) + 1 \<le> MaxAllocSize
   \<and> 4 \<le> allocs_left \<lparr>allocs_left = 4, events = []\<rparr>
   \<and> snd (no_expansions ([] @ [0])) = 0
   \<and> fst (postal_normalize no_expansions [] \<lparr>allocs_left = 4, events = []\<rparr>) = Inr []
   \<and> num_components (no_components ([] @ [0])) = 0
   \<and> fst (postal_parse no_components accept_empty_object [] \<lparr>allocs_left = 4, events = []\<rparr>)
       = Inr []"
proof -
  have 1: "length ([] :: byte list) + 1 \<le> MaxAllocSize"
    by (simp add: MaxAllocSize_def)
  have 2: "4 \<le> allocs_left \<lparr>allocs_left = 4, events = []\<rparr>"
    by simp
  show ?thesis
    using 1 2 empty_results_are_not_errors [OF 1 2, of no_expansions no_components accept_empty_object]
    by (simp add: no_expansions_def no_components_def accept_empty_object_def)
qed

subsection \<open>Release of the external buffers\<close>

text \<open>
  C4, as stated, fails: when the host raises an allocation error after the engine was
  called, the error leaves \<open>postal_normalize\<close> without the expansions being released.
\<close>

theorem allocation_failure_leaves_expansions_unreleased:
  "postal_normalize sample_expand [0x31] \<lparr>allocs_left = 1, events = []\<rparr>
     = (Inl AllocationError, \<lparr>allocs_left = 0, events = [ExpandAddress]\<rparr>)"
proof -
  have e: "sample_expand ([0x31] @ [0]) = ([[0x42, 0], [0x41, 0], [0x42, 0]], 3)"
    by (simp add: sample_expand_def)
  show ?thesis
    unfolding postal_normalize_unfold [of sample_expand "[0x31]", OF e]
    by (simp add: alloc_ok_def MaxAllocSize_def sizeof_Datum_def charge_def)
qed

text \<open>
  C4, amended. When \<open>postal_normalize\<close> returns, it has called the engine once and, after
  it, the release function once. When it raises an error instead, it has called the engine
  once and not released what the engine returned, unless the error came from converting
  the argument, before the engine was called; then it has called neither.

  \<open>postal_parse\<close> first builds the document text and releases the response, then hands the
  text to the document parser: its run with any parser ends in the state of its run with
  the parser that returns the text as it is, with the error of that run if it has one, and
  with what the parser makes of the text otherwise. When the text is built, the engine has
  been called once and, after it, the release function once, so this is the trace both
  when \<open>postal_parse\<close> returns and when the parser raises an error. When an error is raised
  while the text is built, the engine has been called once and the response is not
  released, unless the error came from converting the argument; then neither was called.

  So the release is never called twice, and never without the engine having been called.
\<close>

theorem release_follows_call_on_return:
  "(case postal_normalize expand address h of
      (Inr arr, h') \<Rightarrow> events h' = events h @ [ExpandAddress, ExpansionArrayDestroy]
    | (Inl e, h') \<Rightarrow>
        events h' = (if alloc_ok (length address + 1) h then events h @ [ExpandAddress]
                     else events h))
   \<and> postal_parse parse jsonb_in address h
       = (case fst (postal_parse parse document_text address h) of
            Inl e \<Rightarrow> Inl e
          | Inr doc_text \<Rightarrow> jsonb_in doc_text,
          snd (postal_parse parse document_text address h))
   \<and> (case postal_parse parse document_text address h of
        (Inr doc_text, h') \<Rightarrow> events h' = events h @ [ParseAddress, ParserResponseDestroy]
      | (Inl e, h') \<Rightarrow>
          events h' = (if alloc_ok (length address + 1) h then events h @ [ParseAddress]
                       else events h))"
proof -
  obtain expansions n where e: "expand (address @ [0]) = (expansions, n)"
    by (cases "expand (address @ [0])")
  have "events h' = events h @ [ExpandAddress, ExpansionArrayDestroy]"
    if "postal_normalize expand address h = (Inr arr, h')" for arr h'
    using postal_normalize_returns [of expand address, OF e that] by simp
  moreover have "events h' = (if alloc_ok (length address + 1) h
                              then events h @ [ExpandAddress] else events h)"
    if "postal_normalize expand address h = (Inl e, h')" for e h'
    using that by (rule postal_normalize_raises_where)
  moreover have "events h' = events h @ [ParseAddress, ParserResponseDestroy]"
    if "postal_parse parse document_text address h = (Inr doc_text, h')" for doc_text h'
    using that by (rule postal_parse_returns)
  moreover have "events h' = (if alloc_ok (length address + 1) h
                              then events h @ [ParseAddress] else events h)"
    if "postal_parse parse document_text address h = (Inl e, h')" for e h'
    using that by (rule postal_parse_build_raises_where)
  ultimately have
    "(case postal_normalize expand address h of
        (Inr arr, h') \<Rightarrow> events h' = events h @ [ExpandAddress, ExpansionArrayDestroy]
      | (Inl e, h') \<Rightarrow>
          events h' = (if alloc_ok (length address + 1) h then events h @ [ExpandAddress]
                       else events h))"
    and "(case postal_parse parse document_text address h of
        (Inr doc_text, h') \<Rightarrow> events h' = events h @ [ParseAddress, ParserResponseDestroy]
      | (Inl e, h') \<Rightarrow>
          events h' = (if alloc_ok (length address + 1) h then events h @ [ParseAddress]
                       else events h))"
    by (simp_all split: prod.splits sum.splits)
  then show ?thesis
    using postal_parse_through_parser [of parse jsonb_in address h] by blast
qed

theorem release_follows_call_on_return_witness:
  "postal_normalize sample_expand [0x31] \<lparr>allocs_left = 7, events = []\<rparr>
     = (Inr [[0x42], [0x41], [0x42]],
        \<lparr>allocs_left = 0, events = [ExpandAddress, ExpansionArrayDestroy]\<rparr>)
   \<and> postal_parse sample_parse document_text [0x31] \<lparr>allocs_left = 9, events = []\<rparr>
       = (Inr [0x7B, 0x22, 0x6E, 0x6F, 0x22, 0x3A, 0x22, 0x35, 0x22, 0x2C,
               0x22, 0x72, 0x6F, 0x61, 0x64, 0x22, 0x3A, 0x22, 0x41, 0x5C, 0x22, 0x42, 0x22, 0x7D],
          \<lparr>allocs_left = 0, events = [ParseAddress, ParserResponseDestroy]\<rparr>)
   \<and> postal_parse sample_parse accept_empty_object [0x31] \<lparr>allocs_left = 9, events = []\<rparr>
       = (Inl InputSyntaxError,
          \<lparr>allocs_left = 0, events = [ParseAddress, ParserResponseDestroy]\<rparr>)
   \<and> postal_parse sample_parse accept_empty_object [0x31] \<lparr>allocs_left = 5, events = []\<rparr>
       = (Inl AllocationError, \<lparr>allocs_left = 0, events = [ParseAddress]\<rparr>)"
proof -
  let ?h9 = "\<lparr>allocs_left = 9, events = []\<rparr>"
  let ?h5 = "\<lparr>allocs_left = 5, events = []\<rparr>"
  have e: "sample_expand ([0x31] @ [0]) = ([[0x42, 0], [0x41, 0], [0x42, 0]], 3)"
    by (simp add: sample_expand_def)
  have n: "postal_normalize sample_expand [0x31] \<lparr>allocs_left = 7, events = []\<rparr>
     = (Inr [[0x42], [0x41], [0x42]],
        \<lparr>allocs_left = 0, events = [ExpandAddress, ExpansionArrayDestroy]\<rparr>)"
    using postal_normalize_succeeds
      [of sample_expand "[0x31]", OF e, of "\<lparr>allocs_left = 7, events = []\<rparr>"]
    by (simp add: MaxAllocSize_def sizeof_Datum_def VARHDRSZ_def strlen_def c_text_def)
  have loop: "parse_loop (sample_parse s) [0x7B] 0 \<lparr>allocs_left = 6, events = evs\<rparr>
                = (Inr [0x7B, 0x22, 0x6E, 0x6F, 0x22, 0x3A, 0x22, 0x35, 0x22, 0x2C,
                        0x22, 0x72, 0x6F, 0x61, 0x64, 0x22, 0x3A, 0x22, 0x41, 0x5C, 0x22, 0x42,
                        0x22],
                   \<lparr>allocs_left = 1, events = evs\<rparr>)" for s evs
    by (subst parse_loop.simps, subst parse_loop.simps)
       (simp add: sample_parse_def fetch_def escape_json_string_run alloc_ok_def
          MaxAllocSize_def strlen_def appendStringInfoChar_run
          appendStringInfo_label_component_run c_str_escaped_chunk
          c_text_def escaped_def escape_table_def pfree_def returnH_def charge_def
          parse_loop_finished)
  have loop5: "parse_loop (sample_parse s) [0x7B] 0 \<lparr>allocs_left = 2, events = evs\<rparr>
                = (Inl AllocationError, \<lparr>allocs_left = 0, events = evs\<rparr>)" for s evs
    by (subst parse_loop.simps, subst parse_loop.simps)
       (simp add: sample_parse_def fetch_def escape_json_string_run alloc_ok_def
          MaxAllocSize_def strlen_def appendStringInfoChar_run
          appendStringInfo_label_component_run c_str_escaped_chunk
          c_text_def escaped_def escape_table_def pfree_def returnH_def charge_def
          parse_loop_finished)
  have p: "postal_parse sample_parse document_text [0x31] ?h9
       = (Inr [0x7B, 0x22, 0x6E, 0x6F, 0x22, 0x3A, 0x22, 0x35, 0x22, 0x2C,
               0x22, 0x72, 0x6F, 0x61, 0x64, 0x22, 0x3A, 0x22, 0x41, 0x5C, 0x22, 0x42, 0x22, 0x7D],
          \<lparr>allocs_left = 0, events = [ParseAddress, ParserResponseDestroy]\<rparr>)"
    unfolding postal_parse_unfold
    by (simp add: alloc_ok_def MaxAllocSize_def charge_def loop document_text_def c_text_def)
  have p5: "postal_parse sample_parse document_text [0x31] ?h5
       = (Inl AllocationError, \<lparr>allocs_left = 0, events = [ParseAddress]\<rparr>)"
    unfolding postal_parse_unfold
    by (simp add: alloc_ok_def MaxAllocSize_def charge_def loop5)
  have q: "postal_parse sample_parse accept_empty_object [0x31] ?h9
       = (Inl InputSyntaxError,
          \<lparr>allocs_left = 0, events = [ParseAddress, ParserResponseDestroy]\<rparr>)"
    using release_follows_call_on_return [where parse = sample_parse
        and jsonb_in = accept_empty_object and address = "[0x31]" and h = ?h9]
    unfolding p by (simp add: accept_empty_object_def)
  have q5: "postal_parse sample_parse accept_empty_object [0x31] ?h5
       = (Inl AllocationError, \<lparr>allocs_left = 0, events = [ParseAddress]\<rparr>)"
    using release_follows_call_on_return [where parse = sample_parse
        and jsonb_in = accept_empty_object and address = "[0x31]" and h = ?h5]
    unfolding p5 by simp
  show ?thesis
    using n p q q5 by blast
qed

subsection \<open>Validity of the document text\<close>

text \<open>
  C3. The document text is not always valid. For an engine response with the label
  \<open>road\<close> and a component that is the control byte \<open>0x01\<close>, the text handed to the host's
  document parser is \<^verbatim>\<open>{"road":"\<close> followed by the raw byte \<open>0x01\<close> and \<^verbatim>\<open>"}\<close>: the first
  string literal ends after \<open>road\<close>, the second holds the byte \<open>0x01\<close> unescaped, which a JSON
  string may not contain, so its content is rejected.
\<close>

theorem control_byte_component_breaks_document:
  "fst (postal_parse control_byte_parse document_text [0x31] \<lparr>allocs_left = 6, events = []\<rparr>)
     = Inr [0x7B, 0x22, 0x72, 0x6F, 0x61, 0x64, 0x22, 0x3A, 0x22, 0x01, 0x22, 0x7D]
   \<and> string_end [0x72, 0x6F, 0x61, 0x64, 0x22, 0x3A, 0x22, 0x01, 0x22, 0x7D] = Some 4
   \<and> string_end [0x01, 0x22, 0x7D] = Some 1
   \<and> json_unescape [0x01] = None"
proof -
  have "postal_parse control_byte_parse document_text [0x31] \<lparr>allocs_left = 6, events = []\<rparr>
          = (Inr [0x7B, 0x22, 0x72, 0x6F, 0x61, 0x64, 0x22, 0x3A, 0x22, 0x01, 0x22, 0x7D],
             \<lparr>allocs_left = 0, events = [ParseAddress, ParserResponseDestroy]\<rparr>)"
    unfolding postal_parse_unfold
    by (simp add: alloc_ok_def MaxAllocSize_def charge_def parse_loop_control_byte
        document_text_def c_text_def)
  moreover have "json_unescape [0x01] = None"
    by (simp add: json_unescape.simps)
  ultimately show ?thesis by simp
qed

end
